theory Spec2Isabelle
  imports Main "HOL-Library.Sublist"
begin

unbundle bit_operations_syntax

section \<open>The virtual file system of thor-os (kernel/src/vfs/vfs.cpp)\<close>

text \<open>
  The development follows \<^verbatim>\<open>vfs.cpp\<close>: the mount registry \<^verbatim>\<open>mount_point_list\<close>, the
  dispatch functions \<^verbatim>\<open>get_path\<close>, \<^verbatim>\<open>get_fs\<close> and \<^verbatim>\<open>get_fs_path\<close>, and the operations of
  namespace \<^verbatim>\<open>vfs\<close>. Values of type \<^verbatim>\<open>size_t\<close> are natural numbers: every string and
  vector measured here lives in one 64-bit address space, so no sum of their sizes reaches
  \<open>2 ^ 64\<close>. Where a \<^verbatim>\<open>size_t\<close> is stored into a caller's byte buffer, its eight bytes are
  written out, least significant first. A status word (\<^verbatim>\<open>int64_t\<close>) is an \<open>int\<close>; the
  status of a backend is a \<^verbatim>\<open>size_t\<close>, and where the source assigns, returns or negates it
  as an \<^verbatim>\<open>int64_t\<close> the conversion is written out.
\<close>

subsection \<open>Paths\<close>

text \<open>
  Modelled from the spec: \<^verbatim>\<open>vfs/path.hpp\<close> is not among the sources. A Path is an ordered
  sequence of name segments and a flag telling whether it is rooted at the global root; a
  rooted path with no segment is the global root.
\<close>

record path =
  rooted :: bool
  names :: "string list"

definition empty_path :: "path \<Rightarrow> bool" where
  "empty_path p = (names p = [])"

definition is_root :: "path \<Rightarrow> bool" where
  "is_root p = (rooted p \<and> names p = [])"

text \<open>
  Modelled from the spec: \<^verbatim>\<open>sub_path(k)\<close> is the suffix after dropping the first \<open>k\<close>
  segments, and a sub-path of a rooted path is rooted.
\<close>

definition sub_path :: "path \<Rightarrow> nat \<Rightarrow> path" where
  "sub_path p k = p\<lparr>names := drop k (names p)\<rparr>"

text \<open>
  Modelled from the spec: \<^verbatim>\<open>std::split\<close> is not among the sources. A string is split on
  the separator and empty segments are discarded. \<open>cur\<close> is the segment being read.
\<close>

fun split_from :: "char \<Rightarrow> string \<Rightarrow> string \<Rightarrow> string list" where
  "split_from sep cur [] = (if cur = [] then [] else [cur])"
| "split_from sep cur (c # cs) =
     (if c = sep then (if cur = [] then split_from sep [] cs else cur # split_from sep [] cs)
      else split_from sep (cur @ [c]) cs)"

definition split :: "string \<Rightarrow> char \<Rightarrow> string list" where
  "split s sep = split_from sep [] s"

text \<open>
  Modelled from the spec: the two constructors of a Path that \<^verbatim>\<open>get_path\<close> uses. A Path
  built from a string is rooted iff the string starts with \<^verbatim>\<open>/\<close>; a Path built from a
  base directory and a relative string has the segments of both, in that order.
\<close>

definition path_of_string :: "string \<Rightarrow> path" where
  "path_of_string s = \<lparr>rooted = (s \<noteq> [] \<and> hd s = CHR ''/''), names = split s (CHR ''/'')\<rparr>"

definition path_of_base :: "path \<Rightarrow> string \<Rightarrow> path" where
  "path_of_base base s = \<lparr>rooted = rooted base, names = names base @ split s (CHR ''/'')\<rparr>"

subsection \<open>The mount registry\<close>

datatype partition_type = FAT32 | SYSFS | DEVFS | PROCFS | UNKNOWN

text \<open>
  \<^verbatim>\<open>struct mounted_fs\<close>. The backend object behind \<^verbatim>\<open>file_system\<close> is of an abstract type
  \<open>'fs\<close>: the mount entry owns it, so the entry holds its state.
\<close>

record 'fs mounted_fs =
  fs_type :: partition_type
  device :: string
  mount_point :: string
  file_system :: 'fs
  mp_vec :: "string list"

text \<open>The constructor \<^verbatim>\<open>mounted_fs(type, dev, mp, fs)\<close>.\<close>

definition new_mounted_fs :: "partition_type \<Rightarrow> string \<Rightarrow> string \<Rightarrow> 'fs \<Rightarrow> 'fs mounted_fs" where
  "new_mounted_fs type dev mp fs =
     \<lparr>fs_type = type, device = dev, mount_point = mp, file_system = fs,
      mp_vec = split mp (CHR ''/'')\<rparr>"

definition partition_type_to_string :: "partition_type \<Rightarrow> string" where
  "partition_type_to_string type =
     (case type of
        FAT32 \<Rightarrow> ''FAT32''
      | SYSFS \<Rightarrow> ''sysfs''
      | DEVFS \<Rightarrow> ''devfs''
      | PROCFS \<Rightarrow> ''procfs''
      | UNKNOWN \<Rightarrow> ''Unknown'')"

subsection \<open>Mount dispatch: \<^verbatim>\<open>get_fs\<close> and \<^verbatim>\<open>get_fs_path\<close>\<close>

text \<open>
  The first loop of \<^verbatim>\<open>get_fs\<close>: the index of the first mount whose \<^verbatim>\<open>mp_vec\<close> is empty,
  counting from \<open>i\<close>.
\<close>

fun first_empty_mp :: "'fs mounted_fs list \<Rightarrow> nat \<Rightarrow> nat option" where
  "first_empty_mp [] i = None"
| "first_empty_mp (mp # mps) i = (if mp_vec mp = [] then Some i else first_empty_mp mps (Suc i))"

text \<open>
  The inner loop of \<^verbatim>\<open>get_fs\<close>: \<open>j\<close> runs while it is below both sizes, and the first
  difference clears \<^verbatim>\<open>match\<close>.
\<close>

fun match_loop :: "string list \<Rightarrow> string list \<Rightarrow> bool" where
  "match_loop (a # as) (b # bs) = (if a \<noteq> b then False else match_loop as bs)"
| "match_loop _ _ = True"

text \<open>
  The outer loop of \<^verbatim>\<open>get_fs\<close> over the mounts from index \<open>i\<close> on, with the variables
  \<^verbatim>\<open>best\<close> and \<^verbatim>\<open>best_match\<close>.
\<close>

fun best_loop :: "'fs mounted_fs list \<Rightarrow> path \<Rightarrow> nat \<Rightarrow> nat \<Rightarrow> nat \<Rightarrow> nat" where
  "best_loop [] base_path i best best_match = best_match"
| "best_loop (mp # mps) base_path i best best_match =
     (if match_loop (mp_vec mp) (names base_path) \<and> length (mp_vec mp) > best
      then best_loop mps base_path (Suc i) (length (mp_vec mp)) i
      else best_loop mps base_path (Suc i) best best_match)"

text \<open>
  \<^verbatim>\<open>get_fs\<close> returns a reference into \<^verbatim>\<open>mount_point_list\<close>; the model returns its index.
  With an empty registry the source reads \<^verbatim>\<open>mount_point_list[0]\<close> out of range: \<open>None\<close>.
\<close>

definition get_fs :: "'fs mounted_fs list \<Rightarrow> path \<Rightarrow> nat option" where
  "get_fs mpl base_path =
     (case (if is_root base_path then first_empty_mp mpl 0 else None) of
        Some i \<Rightarrow> Some i
      | None \<Rightarrow>
          (let best_match = best_loop mpl base_path 0 0 0
           in if best_match < length mpl then Some best_match else None))"

definition get_fs_path :: "path \<Rightarrow> 'fs mounted_fs \<Rightarrow> path" where
  "get_fs_path base_path fs = sub_path base_path (length (mp_vec fs))"

subsection \<open>Constants of the headers\<close>

text \<open>
  The headers that define the error codes, the flag bits and \<^verbatim>\<open>struct directory_entry\<close>
  are not among the sources: their values are parameters of the model. The codes and bits
  are \<^verbatim>\<open>size_t\<close> constants.
\<close>

record constants =
  ERROR_NOT_EXISTS :: nat
  ERROR_INVALID_FILE_PATH :: nat
  ERROR_INVALID_FILE_DESCRIPTOR :: nat
  ERROR_BUFFER_SMALL :: nat
  ERROR_INVALID_FILE_SYSTEM :: nat
  ERROR_ALREADY_MOUNTED :: nat
  OPEN_CREATE :: nat
  STAT_FLAG_DIRECTORY :: nat
  STAT_FLAG_SYSTEM :: nat
  STAT_FLAG_HIDDEN :: nat
  sizeof_directory_entry :: nat

text \<open>\<^verbatim>\<open>sizeof(size_t)\<close> on the 64-bit kernel; \<^verbatim>\<open>entries\<close> writes the same size as \<^verbatim>\<open>8\<close>.\<close>

definition sizeof_size_t :: nat where
  "sizeof_size_t = 8"

subsection \<open>Files and file system backends\<close>

text \<open>Modelled from the spec: the file metadata \<^verbatim>\<open>vfs::file\<close> a backend returns.\<close>

record vfs_file =
  file_name :: string
  directory :: bool
  hidden :: bool
  system :: bool
  size_file :: nat
  created :: nat
  modified :: nat
  accessed :: nat

text \<open>Modelled from the spec: the \<^verbatim>\<open>stat_info\<close> record, \<^verbatim>\<open>flags\<close> being a bit set.\<close>

record stat_info =
  size_info :: nat
  flags :: nat
  created_info :: nat
  modified_info :: nat
  accessed_info :: nat

text \<open>Modelled from the spec: the statistics that a backend's \<^verbatim>\<open>statfs\<close> fills in.\<close>

record statfs_info =
  total_bytes :: nat
  free_bytes :: nat

text \<open>
  Modelled from the spec: the backend contract \<^verbatim>\<open>vfs::file_system\<close> (section 4.2), whose
  header and implementations are not among the sources. Every operation takes the backend
  object and returns it updated; its status is \<open>0\<close> on success and a positive error code
  otherwise; an out-parameter is returned beside the status. \<^verbatim>\<open>read\<close> returns the bytes
  it has stored at the start of the caller's buffer, and their number is its \<^verbatim>\<open>read\<close>
  count. The four constructors are those \<^verbatim>\<open>get_new_fs\<close> calls.
\<close>

record 'fs file_system_ops =
  new_fat32 :: "string \<Rightarrow> string \<Rightarrow> 'fs"
  new_sysfs :: "string \<Rightarrow> 'fs"
  new_devfs :: "string \<Rightarrow> 'fs"
  new_procfs :: "string \<Rightarrow> 'fs"
  fs_init :: "'fs \<Rightarrow> unit \<times> 'fs"
  fs_statfs :: "'fs \<Rightarrow> statfs_info \<Rightarrow> (nat \<times> statfs_info) \<times> 'fs"
  fs_get_file :: "'fs \<Rightarrow> path \<Rightarrow> (nat \<times> vfs_file) \<times> 'fs"
  fs_touch :: "'fs \<Rightarrow> path \<Rightarrow> nat \<times> 'fs"
  fs_mkdir :: "'fs \<Rightarrow> path \<Rightarrow> nat \<times> 'fs"
  fs_rm :: "'fs \<Rightarrow> path \<Rightarrow> nat \<times> 'fs"
  fs_read :: "'fs \<Rightarrow> path \<Rightarrow> nat \<Rightarrow> nat \<Rightarrow> (nat \<times> string) \<times> 'fs"
  fs_write :: "'fs \<Rightarrow> path \<Rightarrow> string \<Rightarrow> nat \<Rightarrow> nat \<Rightarrow> (nat \<times> nat) \<times> 'fs"
  fs_ls :: "'fs \<Rightarrow> path \<Rightarrow> (nat \<times> vfs_file list) \<times> 'fs"

definition get_new_fs :: "'fs file_system_ops \<Rightarrow> partition_type \<Rightarrow> string \<Rightarrow> string \<Rightarrow> 'fs option" where
  "get_new_fs be type mp dev =
     (case type of
        FAT32 \<Rightarrow> Some (new_fat32 be mp dev)
      | SYSFS \<Rightarrow> Some (new_sysfs be mp)
      | DEVFS \<Rightarrow> Some (new_devfs be mp)
      | PROCFS \<Rightarrow> Some (new_procfs be mp)
      | UNKNOWN \<Rightarrow> None)"

subsection \<open>Statuses\<close>

text \<open>
  A backend returns its status as a \<^verbatim>\<open>size_t\<close>. \<open>to_int64\<close> is the conversion of a
  \<^verbatim>\<open>size_t\<close> to \<^verbatim>\<open>int64_t\<close>: the value modulo \<open>2 ^ 64\<close>, read as two's complement.
  \<open>negated\<close> is \<^verbatim>\<open>-result\<close> for a \<^verbatim>\<open>size_t\<close> \<^verbatim>\<open>result\<close>, returned as an \<^verbatim>\<open>int64_t\<close>: the
  negation is taken modulo \<open>2 ^ 64\<close> and then converted. \<open>to_size_t\<close> is the conversion
  of an \<^verbatim>\<open>int64_t\<close> to \<^verbatim>\<open>size_t\<close> that a comparison of the two makes.
\<close>

definition signed64 :: "int \<Rightarrow> int" where
  "signed64 x = (let m = x mod 2 ^ 64 in if m < 2 ^ 63 then m else m - 2 ^ 64)"

definition to_int64 :: "nat \<Rightarrow> int" where
  "to_int64 n = signed64 (int n)"

definition negated :: "nat \<Rightarrow> int" where
  "negated n = signed64 (- int n)"

definition to_size_t :: "int \<Rightarrow> int" where
  "to_size_t x = x mod 2 ^ 64"

subsection \<open>The state: registry, scheduler, and the record of backend calls\<close>

text \<open>The virtual calls made on backends, recorded with the index of the mount.\<close>

datatype fs_call =
    Call_init
  | Call_statfs
  | Call_get_file path
  | Call_touch path
  | Call_mkdir path
  | Call_rm path
  | Call_read path nat nat
  | Call_write path nat nat
  | Call_ls path

text \<open>
  \<^verbatim>\<open>mount_point_list\<close> is the global registry of \<^verbatim>\<open>vfs.cpp\<close>. Modelled from the spec:
  the scheduler (section 6), which is not among the sources, keeps the working directory
  and the descriptor table of the current process; a descriptor is an index of the table.
  \<open>calls\<close> lists the backend calls made so far, oldest first.
\<close>

record 'fs vfs_state =
  mount_point_list :: "'fs mounted_fs list"
  working_directory :: path
  handles :: "path list"
  calls :: "(nat \<times> fs_call) list"

definition get_working_directory :: "'fs vfs_state \<Rightarrow> path" where
  "get_working_directory st = working_directory st"

definition has_handle :: "'fs vfs_state \<Rightarrow> nat \<Rightarrow> bool" where
  "has_handle st fd = (fd < length (handles st))"

definition get_handle :: "'fs vfs_state \<Rightarrow> nat \<Rightarrow> path" where
  "get_handle st fd = handles st ! fd"

definition register_new_handle :: "'fs vfs_state \<Rightarrow> path \<Rightarrow> int \<times> 'fs vfs_state" where
  "register_new_handle st p = (int (length (handles st)), st\<lparr>handles := handles st @ [p]\<rparr>)"

text \<open>
  A virtual call \<^verbatim>\<open>fs.file_system->op(...)\<close> on the mount of index \<open>i\<close>: the backend
  object of that entry is replaced by the one the operation returns, and the call is recorded.
\<close>

definition invoke :: "'fs vfs_state \<Rightarrow> nat \<Rightarrow> fs_call \<Rightarrow> ('fs \<Rightarrow> 'r \<times> 'fs) \<Rightarrow> 'r \<times> 'fs vfs_state" where
  "invoke st i c f =
     (let mp = mount_point_list st ! i;
          (r, fs') = f (file_system mp)
      in (r, st\<lparr>mount_point_list := (mount_point_list st)[i := mp\<lparr>file_system := fs'\<rparr>],
               calls := calls st @ [(i, c)]\<rparr>))"

definition get_path :: "'fs vfs_state \<Rightarrow> string \<Rightarrow> path" where
  "get_path st file_path =
     (if (case file_path of [] \<Rightarrow> True | c # _ \<Rightarrow> c \<noteq> CHR ''/'')
      then path_of_base (get_working_directory st) file_path
      else path_of_string file_path)"

subsection \<open>Mounting\<close>

text \<open>
  The loops of the descriptor form of \<^verbatim>\<open>vfs::mount\<close> that build \<^verbatim>\<open>mp\<close> and \<^verbatim>\<open>device\<close>:
  the string starts as \<^verbatim>\<open>/\<close>, and each segment of the path is appended, followed by
  \<^verbatim>\<open>/\<close>.
\<close>

fun join_segments :: "string \<Rightarrow> string list \<Rightarrow> string" where
  "join_segments acc [] = acc"
| "join_segments acc (p # ps) = join_segments (acc @ p @ ''/'') ps"

text \<open>The loop that compares \<^verbatim>\<open>mp\<close> with the \<^verbatim>\<open>mount_point\<close> of every live mount.\<close>

fun already_mounted :: "'fs mounted_fs list \<Rightarrow> string \<Rightarrow> bool" where
  "already_mounted [] mp = False"
| "already_mounted (m # ms) mp = (if mount_point m = mp then True else already_mounted ms mp)"

text \<open>\<^verbatim>\<open>vfs::mount(partition_type, size_t mp_fd, size_t dev_fd)\<close>.\<close>

definition vfs_mount_fd ::
  "constants \<Rightarrow> 'fs file_system_ops \<Rightarrow> 'fs vfs_state \<Rightarrow> partition_type \<Rightarrow> nat \<Rightarrow> nat
     \<Rightarrow> int \<times> 'fs vfs_state" where
  "vfs_mount_fd K be st type mp_fd dev_fd =
     (if \<not> has_handle st mp_fd then (- int (ERROR_INVALID_FILE_DESCRIPTOR K), st)
      else if \<not> has_handle st dev_fd then (- int (ERROR_INVALID_FILE_DESCRIPTOR K), st)
      else
        let mp_path = get_handle st mp_fd;
            dev_path = get_handle st dev_fd;
            mp = join_segments ''/'' (names mp_path);
            dev = join_segments ''/'' (names dev_path)
        in if already_mounted (mount_point_list st) mp
           then (- int (ERROR_ALREADY_MOUNTED K), st)
           else
             (case get_new_fs be type mp dev of
                None \<Rightarrow> (- int (ERROR_INVALID_FILE_SYSTEM K), st)
              | Some fs \<Rightarrow>
                  let st1 = st\<lparr>mount_point_list :=
                                 mount_point_list st @ [new_mounted_fs type dev mp fs]\<rparr>;
                      (u, st2) = invoke st1 (length (mount_point_list st)) Call_init (fs_init be)
                  in (0, st2)))"

text \<open>\<^verbatim>\<open>vfs::mount(partition_type, const char* mount_point, const char* device)\<close>.\<close>

definition vfs_mount ::
  "constants \<Rightarrow> 'fs file_system_ops \<Rightarrow> 'fs vfs_state \<Rightarrow> partition_type \<Rightarrow> string \<Rightarrow> string
     \<Rightarrow> int \<times> 'fs vfs_state" where
  "vfs_mount K be st type mp dev =
     (case get_new_fs be type mp dev of
        None \<Rightarrow> (- int (ERROR_INVALID_FILE_SYSTEM K), st)
      | Some fs \<Rightarrow>
          (0, st\<lparr>mount_point_list := mount_point_list st @ [new_mounted_fs type dev mp fs]\<rparr>))"

text \<open>
  \<^verbatim>\<open>vfs::init\<close>: \<^verbatim>\<open>mount_root\<close>, \<^verbatim>\<open>mount_sys\<close>, \<^verbatim>\<open>mount_dev\<close> and \<^verbatim>\<open>mount_proc\<close>, which drop
  the status of \<^verbatim>\<open>mount\<close>, then \<^verbatim>\<open>init\<close> on the backend of every mount.
\<close>

fun init_loop :: "'fs file_system_ops \<Rightarrow> 'fs vfs_state \<Rightarrow> nat list \<Rightarrow> 'fs vfs_state" where
  "init_loop be st [] = st"
| "init_loop be st (i # is) = init_loop be (snd (invoke st i Call_init (fs_init be))) is"

definition vfs_init :: "constants \<Rightarrow> 'fs file_system_ops \<Rightarrow> 'fs vfs_state \<Rightarrow> 'fs vfs_state" where
  "vfs_init K be st =
     (let st1 = snd (vfs_mount K be st FAT32 ''/'' ''/dev/hda1'');
          st2 = snd (vfs_mount K be st1 SYSFS ''/sys/'' ''none'');
          st3 = snd (vfs_mount K be st2 DEVFS ''/dev/'' ''none'');
          st4 = snd (vfs_mount K be st3 PROCFS ''/proc/'' ''none'')
      in init_loop be st4 [0..<length (mount_point_list st4)])"

text \<open>
  A sequence of calls of the descriptor form of \<^verbatim>\<open>vfs::mount\<close>, each on the state that the
  call before it has left.
\<close>

fun mount_fd_sequence ::
  "constants \<Rightarrow> 'fs file_system_ops \<Rightarrow> 'fs vfs_state \<Rightarrow> (partition_type \<times> nat \<times> nat) list
     \<Rightarrow> 'fs vfs_state" where
  "mount_fd_sequence K be st [] = st"
| "mount_fd_sequence K be st ((type, mp_fd, dev_fd) # ops) =
     mount_fd_sequence K be (snd (vfs_mount_fd K be st type mp_fd dev_fd)) ops"

text \<open>
  Modelled from the spec: the invariant of a Path (section 3): no segment is empty and no
  segment contains \<^verbatim>\<open>/\<close>.
\<close>

definition valid_path :: "path \<Rightarrow> bool" where
  "valid_path p = list_all (\<lambda>s. s \<noteq> [] \<and> CHR ''/'' \<notin> set s) (names p)"

text \<open>
  The mount points of a registry are canonical when each is stored in the form that the
  descriptor form of \<^verbatim>\<open>vfs::mount\<close> builds from the segments.
\<close>

definition canonical_mounts :: "'fs mounted_fs list \<Rightarrow> bool" where
  "canonical_mounts mpl = list_all (\<lambda>m. mount_point m = join_segments ''/'' (mp_vec m)) mpl"

subsection \<open>Operations on paths and descriptors\<close>

text \<open>
  The result of an operation is \<open>None\<close> where the source has no defined behaviour: a
  reference into an empty registry, or a store beyond the end of a buffer.
\<close>

definition vfs_statfs ::
  "constants \<Rightarrow> 'fs file_system_ops \<Rightarrow> 'fs vfs_state \<Rightarrow> string \<Rightarrow> statfs_info
     \<Rightarrow> (int \<times> statfs_info \<times> 'fs vfs_state) option" where
  "vfs_statfs K be st mp info =
     (if length mp = 0 then Some (- int (ERROR_INVALID_FILE_PATH K), info, st)
      else
        let base_path = get_path st mp
        in case get_fs (mount_point_list st) base_path of
             None \<Rightarrow> None
           | Some i \<Rightarrow>
               let ((result, info'), st1) = invoke st i Call_statfs (\<lambda>fs. fs_statfs be fs info)
               in Some (to_int64 result, info', st1))"

text \<open>
  \<^verbatim>\<open>vfs::open\<close> holds the status of the backend in \<^verbatim>\<open>int64_t sub_result\<close>: it compares it
  with the \<^verbatim>\<open>size_t\<close> constant \<^verbatim>\<open>ERROR_NOT_EXISTS\<close>, tests its sign and negates it. The other
  operations keep the status in a \<^verbatim>\<open>size_t\<close> (\<^verbatim>\<open>auto result\<close>), test it unsigned and return
  \<^verbatim>\<open>-result\<close>, or return the status itself (\<^verbatim>\<open>statfs\<close>, \<^verbatim>\<open>mkdir\<close>, \<^verbatim>\<open>rm\<close>).
\<close>

definition vfs_open ::
  "constants \<Rightarrow> 'fs file_system_ops \<Rightarrow> 'fs vfs_state \<Rightarrow> string \<Rightarrow> nat
     \<Rightarrow> (int \<times> 'fs vfs_state) option" where
  "vfs_open K be st file_path open_flags =
     (if file_path = [] then Some (- int (ERROR_INVALID_FILE_PATH K), st)
      else
        let base_path = get_path st file_path
        in case get_fs (mount_point_list st) base_path of
             None \<Rightarrow> None
           | Some i \<Rightarrow>
               let fs_path = get_fs_path base_path (mount_point_list st ! i)
               in if is_root fs_path then Some (register_new_handle st base_path)
                  else
                    let (sub_result, st2) =
                          (if open_flags AND OPEN_CREATE K \<noteq> 0
                           then
                             let ((r, f), st1) = invoke st i (Call_get_file fs_path)
                                                   (\<lambda>fs. fs_get_file be fs fs_path);
                                 sub_result = to_int64 r
                             in if to_size_t sub_result = int (ERROR_NOT_EXISTS K)
                                then
                                  let (t, st2) = invoke st1 i (Call_touch fs_path)
                                                   (\<lambda>fs. fs_touch be fs fs_path)
                                  in (to_int64 t, st2)
                                else (sub_result, st1)
                           else
                             let ((r, f), st1) = invoke st i (Call_get_file fs_path)
                                                   (\<lambda>fs. fs_get_file be fs fs_path)
                             in (to_int64 r, st1))
                    in if 0 < sub_result then Some (- sub_result, st2)
                       else Some (register_new_handle st2 base_path))"

definition vfs_mkdir ::
  "constants \<Rightarrow> 'fs file_system_ops \<Rightarrow> 'fs vfs_state \<Rightarrow> string \<Rightarrow> (int \<times> 'fs vfs_state) option" where
  "vfs_mkdir K be st file_path =
     (if file_path = [] then Some (- int (ERROR_INVALID_FILE_PATH K), st)
      else
        let base_path = get_path st file_path
        in case get_fs (mount_point_list st) base_path of
             None \<Rightarrow> None
           | Some i \<Rightarrow>
               let fs_path = get_fs_path base_path (mount_point_list st ! i);
                   (r, st1) = invoke st i (Call_mkdir fs_path) (\<lambda>fs. fs_mkdir be fs fs_path)
               in Some (to_int64 r, st1))"

definition vfs_rm ::
  "constants \<Rightarrow> 'fs file_system_ops \<Rightarrow> 'fs vfs_state \<Rightarrow> string \<Rightarrow> (int \<times> 'fs vfs_state) option" where
  "vfs_rm K be st file_path =
     (if file_path = [] then Some (- int (ERROR_INVALID_FILE_PATH K), st)
      else
        let base_path = get_path st file_path
        in case get_fs (mount_point_list st) base_path of
             None \<Rightarrow> None
           | Some i \<Rightarrow>
               let fs_path = get_fs_path base_path (mount_point_list st ! i);
                   (r, st1) = invoke st i (Call_rm fs_path) (\<lambda>fs. fs_rm be fs fs_path)
               in Some (to_int64 r, st1))"

definition vfs_stat ::
  "constants \<Rightarrow> 'fs file_system_ops \<Rightarrow> 'fs vfs_state \<Rightarrow> nat \<Rightarrow> stat_info
     \<Rightarrow> (int \<times> stat_info \<times> 'fs vfs_state) option" where
  "vfs_stat K be st fd info =
     (if \<not> has_handle st fd then Some (- int (ERROR_INVALID_FILE_DESCRIPTOR K), info, st)
      else
        let base_path = get_handle st fd
        in case get_fs (mount_point_list st) base_path of
             None \<Rightarrow> None
           | Some i \<Rightarrow>
               let fs_path = get_fs_path base_path (mount_point_list st ! i)
               in if empty_path fs_path
                  then Some (0, info\<lparr>size_info := 4096, flags := STAT_FLAG_DIRECTORY K\<rparr>, st)
                  else
                    let ((result, f), st1) = invoke st i (Call_get_file fs_path)
                                               (\<lambda>fs. fs_get_file be fs fs_path)
                    in if 0 < result then Some (negated result, info, st1)
                       else
                         let info1 = info\<lparr>size_info := size_file f, flags := 0\<rparr>;
                             info2 = (if directory f
                                      then info1\<lparr>flags := flags info1 OR STAT_FLAG_DIRECTORY K\<rparr>
                                      else info1);
                             info3 = (if system f
                                      then info2\<lparr>flags := flags info2 OR STAT_FLAG_SYSTEM K\<rparr>
                                      else info2);
                             info4 = (if hidden f
                                      then info3\<lparr>flags := flags info3 OR STAT_FLAG_HIDDEN K\<rparr>
                                      else info3)
                         in Some (0, info4\<lparr>created_info := created f,
                                           modified_info := modified f,
                                           accessed_info := accessed f\<rparr>, st1))"

subsection \<open>Buffers\<close>

text \<open>
  A caller's buffer (\<^verbatim>\<open>char*\<close>) is the list of its bytes. A store of the bytes \<open>bs\<close> from
  position \<open>pos\<close> on replaces as many bytes of the buffer; a store that would run beyond
  the end of the buffer has no defined behaviour.
\<close>

definition store :: "string \<Rightarrow> nat \<Rightarrow> string \<Rightarrow> string option" where
  "store buffer pos bs =
     (if pos + length bs \<le> length buffer
      then Some (take pos buffer @ bs @ drop (pos + length bs) buffer)
      else None)"

text \<open>A sequence of stores, in the order of the source.\<close>

fun stores :: "string \<Rightarrow> (nat \<times> string) list \<Rightarrow> string option" where
  "stores buffer [] = Some buffer"
| "stores buffer ((pos, bs) # ws) =
     (case store buffer pos bs of None \<Rightarrow> None | Some buffer' \<Rightarrow> stores buffer' ws)"

text \<open>The \<open>k\<close> low bytes of a \<^verbatim>\<open>size_t\<close>, least significant first; a field holds eight.\<close>

fun low_bytes :: "nat \<Rightarrow> nat \<Rightarrow> string" where
  "low_bytes 0 n = []"
| "low_bytes (Suc k) n = char_of n # low_bytes k (n div 256)"

definition size_t_bytes :: "nat \<Rightarrow> string" where
  "size_t_bytes n = low_bytes sizeof_size_t n"

definition vfs_direct_read ::
  "constants \<Rightarrow> 'fs file_system_ops \<Rightarrow> 'fs vfs_state \<Rightarrow> string \<Rightarrow> string \<Rightarrow> nat \<Rightarrow> nat
     \<Rightarrow> (int \<times> string \<times> 'fs vfs_state) option" where
  "vfs_direct_read K be st file_path buffer count offset =
     (let base_path = get_path st file_path
      in case get_fs (mount_point_list st) base_path of
           None \<Rightarrow> None
         | Some i \<Rightarrow>
             let fs_path = get_fs_path base_path (mount_point_list st ! i);
                 ((result, bytes_read), st1) = invoke st i (Call_read fs_path count offset)
                                                 (\<lambda>fs. fs_read be fs fs_path count offset)
             in (case store buffer 0 bytes_read of
                   None \<Rightarrow> None
                 | Some buffer' \<Rightarrow>
                     if 0 < result then Some (negated result, buffer', st1)
                     else Some (int (length bytes_read), buffer', st1)))"

definition vfs_direct_write ::
  "constants \<Rightarrow> 'fs file_system_ops \<Rightarrow> 'fs vfs_state \<Rightarrow> string \<Rightarrow> string \<Rightarrow> nat \<Rightarrow> nat
     \<Rightarrow> (int \<times> 'fs vfs_state) option" where
  "vfs_direct_write K be st file_path buffer count offset =
     (let base_path = get_path st file_path
      in case get_fs (mount_point_list st) base_path of
           None \<Rightarrow> None
         | Some i \<Rightarrow>
             let fs_path = get_fs_path base_path (mount_point_list st ! i);
                 ((result, written), st1) = invoke st i (Call_write fs_path count offset)
                                              (\<lambda>fs. fs_write be fs fs_path buffer count offset)
             in if 0 < result then Some (negated result, st1) else Some (int written, st1))"

text \<open>
  Modelled from the spec: the growable string \<^verbatim>\<open>std::string\<close> of the kernel's library is
  not among the sources. It has reserved bytes and a logical length; \<^verbatim>\<open>reserve(n)\<close> makes
  the reserved bytes at least \<open>n\<close> and keeps the bytes it has, \<^verbatim>\<open>adjust_size(n)\<close> sets the
  logical length.
\<close>

record std_string =
  reserved :: string
  logical_length :: nat

definition reserve :: "std_string \<Rightarrow> nat \<Rightarrow> std_string" where
  "reserve s n =
     (if length (reserved s) < n
      then s\<lparr>reserved := reserved s @ replicate (n - length (reserved s)) (CHR 0x00)\<rparr>
      else s)"

definition adjust_size :: "std_string \<Rightarrow> nat \<Rightarrow> std_string" where
  "adjust_size s n = s\<lparr>logical_length := n\<rparr>"

text \<open>\<^verbatim>\<open>vfs::direct_read(const std::string& file_path, std::string& content)\<close>.\<close>

definition vfs_direct_read_string ::
  "constants \<Rightarrow> 'fs file_system_ops \<Rightarrow> 'fs vfs_state \<Rightarrow> string \<Rightarrow> std_string
     \<Rightarrow> (int \<times> std_string \<times> 'fs vfs_state) option" where
  "vfs_direct_read_string K be st file_path content =
     (let base_path = get_path st file_path
      in case get_fs (mount_point_list st) base_path of
           None \<Rightarrow> None
         | Some i \<Rightarrow>
             let fs_path = get_fs_path base_path (mount_point_list st ! i);
                 ((result, f), st1) = invoke st i (Call_get_file fs_path)
                                        (\<lambda>fs. fs_get_file be fs fs_path)
             in if 0 < result then Some (negated result, content, st1)
                else
                  let content1 = reserve content (size_file f + 1);
                      ((result2, bytes_read), st2) =
                         invoke st1 i (Call_read fs_path (size_file f) 0)
                           (\<lambda>fs. fs_read be fs fs_path (size_file f) 0)
                  in (case store (reserved content1) 0 bytes_read of
                        None \<Rightarrow> None
                      | Some b1 \<Rightarrow>
                          if 0 < result2 then Some (negated result2, content1\<lparr>reserved := b1\<rparr>, st2)
                          else
                            (case store b1 (length bytes_read) [CHR 0x00] of
                               None \<Rightarrow> None
                             | Some b2 \<Rightarrow>
                                 Some (int (length bytes_read),
                                       adjust_size (content1\<lparr>reserved := b2\<rparr>) (length bytes_read),
                                       st2))))"

subsection \<open>The directory listing: \<^verbatim>\<open>vfs::entries\<close>\<close>

text \<open>
  Modelled from the spec: the layout of \<^verbatim>\<open>struct directory_entry\<close> (section 6), whose
  header is not among the sources: the offsets of its fields.
\<close>

definition entry_offset_next :: nat where "entry_offset_next = 0"
definition entry_type :: nat where "entry_type = 8"
definition entry_length :: nat where "entry_length = 16"
definition entry_name :: nat where "entry_name = 24"

text \<open>The loop that sums \<^verbatim>\<open>total_size\<close>; \<open>sz\<close> is \<^verbatim>\<open>sizeof(directory_entry)\<close>.\<close>

fun entries_total :: "nat \<Rightarrow> vfs_file list \<Rightarrow> nat \<Rightarrow> nat" where
  "entries_total sz [] total_size = total_size"
| "entries_total sz (f # fs) total_size =
     entries_total sz fs (total_size + (sz + length (file_name f)))"

text \<open>
  The loop that writes the entries. \<^verbatim>\<open>i + 1 < files.size()\<close> holds when files remain after
  the current one. The stores are in the order of the source; those of the name go through
  the pointer \<^verbatim>\<open>entry\<close>, taken before \<^verbatim>\<open>position\<close> moves.
\<close>

fun entries_loop :: "vfs_file list \<Rightarrow> nat \<Rightarrow> string \<Rightarrow> string option" where
  "entries_loop [] position buffer = Some buffer"
| "entries_loop (f # rest) position buffer =
     (let entry = position;
          len = length (file_name f);
          offset_next = (if rest \<noteq> [] then len + 1 + 3 * 8 else 0);
          position' = (if rest \<noteq> [] then position + offset_next else position)
      in case stores buffer
                [(entry + entry_type, size_t_bytes 0),
                 (entry + entry_length, size_t_bytes len),
                 (entry + entry_offset_next, size_t_bytes offset_next),
                 (entry + entry_name, file_name f),
                 (entry + entry_name + len, [CHR 0x00])] of
           None \<Rightarrow> None
         | Some buffer' \<Rightarrow> entries_loop rest position' buffer')"

definition vfs_entries ::
  "constants \<Rightarrow> 'fs file_system_ops \<Rightarrow> 'fs vfs_state \<Rightarrow> nat \<Rightarrow> string \<Rightarrow> nat
     \<Rightarrow> (int \<times> string \<times> 'fs vfs_state) option" where
  "vfs_entries K be st fd buffer buffer_size =
     (if \<not> has_handle st fd then Some (- int (ERROR_INVALID_FILE_DESCRIPTOR K), buffer, st)
      else
        let base_path = get_handle st fd
        in case get_fs (mount_point_list st) base_path of
             None \<Rightarrow> None
           | Some i \<Rightarrow>
               let fs_path = get_fs_path base_path (mount_point_list st ! i);
                   ((result, files), st1) = invoke st i (Call_ls fs_path)
                                              (\<lambda>fs. fs_ls be fs fs_path)
               in if 0 < result then Some (negated result, buffer, st1)
                  else
                    let total_size = entries_total (sizeof_directory_entry K) files 0
                    in if buffer_size < total_size
                       then Some (- int (ERROR_BUFFER_SMALL K), buffer, st1)
                       else
                         (case entries_loop files 0 buffer of
                            None \<Rightarrow> None
                          | Some buffer' \<Rightarrow> Some (int total_size, buffer', st1)))"

text \<open>
  The listing as section 6 of the specification lays it out, to compare with what the loop
  writes: an entry is \<^verbatim>\<open>offset_next\<close>, \<^verbatim>\<open>type\<close> and \<^verbatim>\<open>length\<close>, each a \<^verbatim>\<open>size_t\<close>, then the
  name and a NUL; \<^verbatim>\<open>offset_next\<close> is \<open>0\<close> in the last entry and the length of the name plus
  \<open>1 + 3 * 8\<close> in every other; \<^verbatim>\<open>type\<close> is \<open>0\<close>.
\<close>

definition directory_entry_bytes :: "string \<Rightarrow> nat \<Rightarrow> string" where
  "directory_entry_bytes name offset_next =
     size_t_bytes offset_next @ size_t_bytes 0 @ size_t_bytes (length name) @ name @ [CHR 0x00]"

fun directory_listing :: "string list \<Rightarrow> string" where
  "directory_listing [] = []"
| "directory_listing [name] = directory_entry_bytes name 0"
| "directory_listing (name # rest) =
     directory_entry_bytes name (length name + 1 + 3 * 8) @ directory_listing rest"

subsection \<open>The mount listing: \<^verbatim>\<open>vfs::mounts\<close>\<close>

text \<open>
  Modelled from the spec: the layout of \<^verbatim>\<open>struct mount_point\<close> (section 6), whose header
  is not among the sources: the offsets of its fields.
\<close>

definition mp_offset_next :: nat where "mp_offset_next = 0"
definition mp_length_mp :: nat where "mp_length_mp = 8"
definition mp_length_dev :: nat where "mp_length_dev = 16"
definition mp_length_type :: nat where "mp_length_type = 24"
definition mp_name :: nat where "mp_name = 32"

fun mounts_total :: "'fs mounted_fs list \<Rightarrow> nat \<Rightarrow> nat" where
  "mounts_total [] total_size = total_size"
| "mounts_total (mp # mps) total_size =
     mounts_total mps
       (total_size + (4 * sizeof_size_t + 3 + length (device mp) + length (mount_point mp)
                 + length (partition_type_to_string (fs_type mp))))"

text \<open>
  The loop that writes the records; \<open>str_pos\<close> of the source is the length of what has been
  stored after \<^verbatim>\<open>name_buffer\<close>.
\<close>

fun mounts_loop :: "'fs mounted_fs list \<Rightarrow> nat \<Rightarrow> string \<Rightarrow> string option" where
  "mounts_loop [] position buffer = Some buffer"
| "mounts_loop (mp # rest) position buffer =
     (let entry = position;
          type_string = partition_type_to_string (fs_type mp);
          offset_next = (if rest \<noteq> []
                         then 4 * sizeof_size_t + 3 + length (device mp) + length (mount_point mp)
                              + length type_string
                         else 0);
          position' = (if rest \<noteq> [] then position + offset_next else position);
          name_buffer = entry + mp_name;
          pos_dev = length (mount_point mp) + 1;
          pos_type = pos_dev + length (device mp) + 1
      in case stores buffer
                [(entry + mp_length_mp, size_t_bytes (length (mount_point mp))),
                 (entry + mp_length_dev, size_t_bytes (length (device mp))),
                 (entry + mp_length_type, size_t_bytes (length type_string)),
                 (entry + mp_offset_next, size_t_bytes offset_next),
                 (name_buffer, mount_point mp),
                 (name_buffer + length (mount_point mp), [CHR 0x00]),
                 (name_buffer + pos_dev, device mp),
                 (name_buffer + pos_dev + length (device mp), [CHR 0x00]),
                 (name_buffer + pos_type, type_string),
                 (name_buffer + pos_type + length type_string, [CHR 0x00])] of
           None \<Rightarrow> None
         | Some buffer' \<Rightarrow> mounts_loop rest position' buffer')"

definition vfs_mounts ::
  "constants \<Rightarrow> 'fs vfs_state \<Rightarrow> string \<Rightarrow> nat \<Rightarrow> (int \<times> string) option" where
  "vfs_mounts K st buffer buffer_size =
     (let total_size = mounts_total (mount_point_list st) 0
      in if buffer_size < total_size then Some (- int (ERROR_BUFFER_SMALL K), buffer)
         else
           (case mounts_loop (mount_point_list st) 0 buffer of
              None \<Rightarrow> None
            | Some buffer' \<Rightarrow> Some (int total_size, buffer')))"

text \<open>
  The listing as section 6 of the specification lays it out: a record is \<^verbatim>\<open>offset_next\<close>,
  \<^verbatim>\<open>length_mp\<close>, \<^verbatim>\<open>length_dev\<close> and \<^verbatim>\<open>length_type\<close>, each a \<^verbatim>\<open>size_t\<close>, then the mount point,
  the device and the type string, each followed by a NUL; \<^verbatim>\<open>offset_next\<close> is \<open>0\<close> in the
  last record and the size of the record in every other.
\<close>

definition mount_record_size :: "'fs mounted_fs \<Rightarrow> nat" where
  "mount_record_size mp =
     4 * sizeof_size_t + 3 + length (device mp) + length (mount_point mp)
     + length (partition_type_to_string (fs_type mp))"

definition mount_record_bytes :: "'fs mounted_fs \<Rightarrow> nat \<Rightarrow> string" where
  "mount_record_bytes mp offset_next =
     size_t_bytes offset_next @ size_t_bytes (length (mount_point mp))
     @ size_t_bytes (length (device mp))
     @ size_t_bytes (length (partition_type_to_string (fs_type mp)))
     @ mount_point mp @ [CHR 0x00] @ device mp @ [CHR 0x00]
     @ partition_type_to_string (fs_type mp) @ [CHR 0x00]"

fun mount_listing :: "'fs mounted_fs list \<Rightarrow> string" where
  "mount_listing [] = []"
| "mount_listing [mp] = mount_record_bytes mp 0"
| "mount_listing (mp # rest) = mount_record_bytes mp (mount_record_size mp) @ mount_listing rest"

subsection \<open>Reading a mount listing\<close>

text \<open>
  The reader of the listing, as section 6 of the specification describes it: a
  \<^verbatim>\<open>size_t\<close> is read back from its eight bytes, a string ends before its NUL, and the reader
  goes from a record to the next by \<^verbatim>\<open>offset_next\<close> until that is \<open>0\<close>.
\<close>

fun bytes_value :: "string \<Rightarrow> nat" where
  "bytes_value [] = 0"
| "bytes_value (c # cs) = of_char c + 256 * bytes_value cs"

definition read_size_t :: "string \<Rightarrow> nat" where
  "read_size_t buffer = bytes_value (take sizeof_size_t buffer)"

definition read_c_string :: "string \<Rightarrow> string" where
  "read_c_string buffer = takeWhile (\<lambda>c. c \<noteq> CHR 0x00) buffer"

definition read_mount_record :: "string \<Rightarrow> string \<times> string \<times> string" where
  "read_mount_record buffer =
     (let s1 = drop mp_name buffer;
          mp = read_c_string s1;
          s2 = drop (length mp + 1) s1;
          dev = read_c_string s2;
          s3 = drop (length dev + 1) s2;
          type_string = read_c_string s3
      in (mp, dev, type_string))"

function read_mount_records :: "string \<Rightarrow> (string \<times> string \<times> string) list" where
  "read_mount_records buffer =
     (let offset_next = read_size_t (drop mp_offset_next buffer)
      in if offset_next = 0 then [read_mount_record buffer]
         else read_mount_record buffer # read_mount_records (drop offset_next buffer))"
  by pat_completeness auto
termination
proof (relation "measure length")
  show "wf (measure length)" by simp
next
  fix buffer :: string and offset_next :: nat
  assume off: "offset_next = read_size_t (drop mp_offset_next buffer)" and nz: "offset_next \<noteq> 0"
  have "buffer \<noteq> []"
  proof
    assume "buffer = []"
    with off have "offset_next = 0" by (simp add: read_size_t_def)
    with nz show False by simp
  qed
  with nz show "(drop offset_next buffer, buffer) \<in> measure length" by simp
qed

declare read_mount_records.simps [simp del]

text \<open>
  A caller reads the bytes that \<^verbatim>\<open>mounts\<close> has returned, \<open>n\<close> of them; when it has
  returned \<open>0\<close> there is no record to read.
\<close>

definition read_mounts :: "nat \<Rightarrow> string \<Rightarrow> (string \<times> string \<times> string) list" where
  "read_mounts n buffer = (if n = 0 then [] else read_mount_records (take n buffer))"

subsection \<open>A small backend and some states, for the examples\<close>

text \<open>
  Distinct positive error codes and distinct flag bits. \<^verbatim>\<open>sizeof(directory_entry)\<close> is
  \<open>32\<close> on the 64-bit kernel: three 8-byte fields and the first byte of the name, padded
  to the alignment of the fields.
\<close>

definition example_constants :: constants where
  "example_constants =
     \<lparr>ERROR_NOT_EXISTS = 1, ERROR_INVALID_FILE_PATH = 2, ERROR_INVALID_FILE_DESCRIPTOR = 3,
      ERROR_BUFFER_SMALL = 4, ERROR_INVALID_FILE_SYSTEM = 5, ERROR_ALREADY_MOUNTED = 6,
      OPEN_CREATE = 1, STAT_FLAG_DIRECTORY = 1, STAT_FLAG_SYSTEM = 2, STAT_FLAG_HIDDEN = 4,
      sizeof_directory_entry = 32\<rparr>"

text \<open>
  A backend whose state is the list of the paths of its files. Every file holds the bytes
  \<^verbatim>\<open>data\<close>; a file that is not there is reported with the code \<open>1\<close>. A name that starts
  with \<^verbatim>\<open>?\<close> makes \<^verbatim>\<open>get_file\<close> fail with the code \<open>8\<close>, and one that starts with \<^verbatim>\<open>!\<close>
  makes \<^verbatim>\<open>touch\<close> fail with the code \<open>9\<close>.
\<close>

definition example_file :: "string list \<Rightarrow> vfs_file" where
  "example_file p =
     \<lparr>file_name = (case rev p of [] \<Rightarrow> [] | n # _ \<Rightarrow> n), directory = False, hidden = False,
      system = False, size_file = 4, created = 11, modified = 12, accessed = 13\<rparr>"

definition example_ops :: "string list list file_system_ops" where
  "example_ops =
     \<lparr>new_fat32 = (\<lambda>mp dev. []),
      new_sysfs = (\<lambda>mp. []),
      new_devfs = (\<lambda>mp. []),
      new_procfs = (\<lambda>mp. []),
      fs_init = (\<lambda>fs. ((), fs)),
      fs_statfs = (\<lambda>fs info. ((0, info), fs)),
      fs_get_file = (\<lambda>fs p. if take 1 (concat (names p)) = ''?'' then ((8, example_file []), fs)
                             else if List.member fs (names p)
                             then ((0, example_file (names p)), fs)
                             else ((1, example_file []), fs)),
      fs_touch = (\<lambda>fs p. if take 1 (concat (names p)) = ''!'' then (9, fs)
                          else (0, fs @ [names p])),
      fs_mkdir = (\<lambda>fs p. (0, fs)),
      fs_rm = (\<lambda>fs p. (0, fs)),
      fs_read = (\<lambda>fs p count offset. if List.member fs (names p)
                                       then ((0, take count (drop offset ''data'')), fs)
                                       else ((1, []), fs)),
      fs_write = (\<lambda>fs p buffer count offset. ((0, count), fs)),
      fs_ls = (\<lambda>fs p. ((0, map example_file fs), fs))\<rparr>"

definition empty_state :: "string list list vfs_state" where
  "empty_state =
     \<lparr>mount_point_list = [], working_directory = \<lparr>rooted = True, names = []\<rparr>,
      handles = [], calls = []\<rparr>"

text \<open>The state after \<^verbatim>\<open>vfs::init\<close>.\<close>

definition booted :: "string list list vfs_state" where
  "booted = vfs_init example_constants example_ops empty_state"

text \<open>
  After \<^verbatim>\<open>vfs::init\<close>, the files \<^verbatim>\<open>/mnt/usb\<close> and \<^verbatim>\<open>/dev/hdb1\<close> are opened with
  \<^verbatim>\<open>OPEN_CREATE\<close>, and a FAT32 file system is mounted with the two descriptors.
\<close>

definition usb_opened :: "string list list vfs_state" where
  "usb_opened =
     (case vfs_open example_constants example_ops booted ''/mnt/usb'' 1 of
        None \<Rightarrow> booted
      | Some (fd1, st1) \<Rightarrow>
          (case vfs_open example_constants example_ops st1 ''/dev/hdb1'' 1 of
             None \<Rightarrow> st1
           | Some (fd2, st2) \<Rightarrow> st2))"

definition usb_mounted :: "string list list vfs_state" where
  "usb_mounted = snd (vfs_mount_fd example_constants example_ops usb_opened FAT32 0 1)"

text \<open>After \<^verbatim>\<open>vfs::init\<close>, the directory \<^verbatim>\<open>/sys/\<close> is opened: descriptor \<open>0\<close>.\<close>

definition sys_opened :: "string list list vfs_state" where
  "sys_opened =
     (case vfs_open example_constants example_ops booted ''/sys/'' 0 of
        None \<Rightarrow> booted
      | Some (fd, st) \<Rightarrow> st)"

section \<open>Properties\<close>

subsection \<open>The loops of \<^verbatim>\<open>get_fs\<close>\<close>

lemma match_loop_iff: "match_loop as bs \<longleftrightarrow> prefix as bs \<or> prefix bs as"
  by (induction as bs rule: match_loop.induct) auto

lemma first_empty_mp_Some:
  "first_empty_mp mps k = Some i \<Longrightarrow>
     k \<le> i \<and> i < k + length mps \<and> mp_vec (mps ! (i - k)) = [] \<and> (\<forall>j < i - k. mp_vec (mps ! j) \<noteq> [])"
proof (induction mps arbitrary: k)
  case Nil
  then show ?case by simp
next
  case (Cons mp mps)
  show ?case
  proof (cases "mp_vec mp = []")
    case True
    with Cons.prems show ?thesis by simp
  next
    case False
    with Cons.prems have "first_empty_mp mps (Suc k) = Some i" by simp
    from Cons.IH [OF this] have a: "Suc k \<le> i" "i < Suc k + length mps"
      "mp_vec (mps ! (i - Suc k)) = []" "\<forall>j < i - Suc k. mp_vec (mps ! j) \<noteq> []" by auto
    from a(1) have e: "i - k = Suc (i - Suc k)" by simp
    have "\<forall>j < i - k. mp_vec ((mp # mps) ! j) \<noteq> []"
    proof (intro allI impI)
      fix j assume "j < i - k"
      then show "mp_vec ((mp # mps) ! j) \<noteq> []"
        using False a(4) e by (cases j) auto
    qed
    with a e show ?thesis by simp
  qed
qed

lemma get_fs_Some_less: "get_fs mpl B = Some i \<Longrightarrow> i < length mpl"
  using first_empty_mp_Some [of mpl 0 i]
  by (auto simp: get_fs_def Let_def split: if_splits option.splits)

lemma best_loop_spec:
  "(best_loop mps B k best bm = bm \<and>
      (\<forall>m \<in> set mps. match_loop (mp_vec m) (names B) \<longrightarrow> length (mp_vec m) \<le> best))
   \<or> (\<exists>j < length mps. best_loop mps B k best bm = k + j
        \<and> match_loop (mp_vec (mps ! j)) (names B)
        \<and> best < length (mp_vec (mps ! j))
        \<and> (\<forall>m \<in> set mps. match_loop (mp_vec m) (names B)
              \<longrightarrow> length (mp_vec m) \<le> length (mp_vec (mps ! j)))
        \<and> (\<forall>j' < j. match_loop (mp_vec (mps ! j')) (names B)
              \<longrightarrow> length (mp_vec (mps ! j')) < length (mp_vec (mps ! j))))"
  (is "?A mps k best bm \<or> ?B mps k best bm")
proof (induction mps arbitrary: k best bm)
  case Nil
  show ?case by simp
next
  case (Cons mp mps)
  let ?M = "\<lambda>m. match_loop (mp_vec m) (names B)"
  let ?L = "\<lambda>m. length (mp_vec m)"
  show ?case
  proof (cases "?M mp \<and> best < ?L mp")
    case True
    then have e: "best_loop (mp # mps) B k best bm = best_loop mps B (Suc k) (?L mp) k"
      by simp
    from Cons.IH [of "Suc k" "?L mp" k]
    show ?thesis
    proof
      assume a: "?A mps (Suc k) (?L mp) k"
      have "?B (mp # mps) k best bm"
        by (rule exI [of _ 0]) (use a True e in auto)
      then show ?thesis ..
    next
      assume "?B mps (Suc k) (?L mp) k"
      then obtain j where j: "j < length mps"
        "best_loop mps B (Suc k) (?L mp) k = Suc k + j"
        "?M (mps ! j)" "?L mp < ?L (mps ! j)"
        "\<forall>m \<in> set mps. ?M m \<longrightarrow> ?L m \<le> ?L (mps ! j)"
        "\<forall>j' < j. ?M (mps ! j') \<longrightarrow> ?L (mps ! j') < ?L (mps ! j)"
        by blast
      have "\<forall>j' < Suc j. ?M ((mp # mps) ! j') \<longrightarrow> ?L ((mp # mps) ! j') < ?L (mps ! j)"
      proof (intro allI impI)
        fix j' assume "j' < Suc j" "?M ((mp # mps) ! j')"
        then show "?L ((mp # mps) ! j') < ?L (mps ! j)"
          using j(4,6) by (cases j') auto
      qed
      then have "?B (mp # mps) k best bm"
        by (intro exI [of _ "Suc j"]) (use j True e in auto)
      then show ?thesis ..
    qed
  next
    case False
    then have e: "best_loop (mp # mps) B k best bm = best_loop mps B (Suc k) best bm"
      by auto
    from False have mp: "?M mp \<longrightarrow> ?L mp \<le> best" by auto
    from Cons.IH [of "Suc k" best bm]
    show ?thesis
    proof
      assume "?A mps (Suc k) best bm"
      with e mp have "?A (mp # mps) k best bm" by auto
      then show ?thesis ..
    next
      assume "?B mps (Suc k) best bm"
      then obtain j where j: "j < length mps"
        "best_loop mps B (Suc k) best bm = Suc k + j"
        "?M (mps ! j)" "best < ?L (mps ! j)"
        "\<forall>m \<in> set mps. ?M m \<longrightarrow> ?L m \<le> ?L (mps ! j)"
        "\<forall>j' < j. ?M (mps ! j') \<longrightarrow> ?L (mps ! j') < ?L (mps ! j)"
        by blast
      have "\<forall>j' < Suc j. ?M ((mp # mps) ! j') \<longrightarrow> ?L ((mp # mps) ! j') < ?L (mps ! j)"
      proof (intro allI impI)
        fix j' assume "j' < Suc j" "?M ((mp # mps) ! j')"
        then show "?L ((mp # mps) ! j') < ?L (mps ! j)"
          using j(4,6) mp by (cases j') auto
      qed
      then have "?B (mp # mps) k best bm"
        by (intro exI [of _ "Suc j"]) (use j mp e in auto)
      then show ?thesis ..
    qed
  qed
qed

lemma prefix_same_length: "prefix xs zs \<Longrightarrow> prefix ys zs \<Longrightarrow> length xs = length ys \<Longrightarrow> xs = ys"
  by (metis prefix_length_prefix order_refl prefix_order.antisym)

lemma match_loop_prefix:
  "\<not> strict_prefix bs as \<Longrightarrow> match_loop as bs \<longleftrightarrow> prefix as bs"
  by (auto simp: match_loop_iff strict_prefix_def)

text \<open>
  Claim C1 says that \<^verbatim>\<open>get_fs\<close> selects the mount with the longest segments among the
  mounts whose segments are a prefix of \<open>B\<close> and are no more than those of \<open>B\<close>, and the
  root mount when no other mount is such. After \<^verbatim>\<open>vfs::init\<close> and a mount at \<^verbatim>\<open>/mnt/usb/\<close>,
  take the rooted path \<^verbatim>\<open>/mnt\<close>. The root mount, entry 0, is the only mount whose segments
  are a prefix of the path, and \<^verbatim>\<open>get_fs\<close> selects entry 4, the mount at \<^verbatim>\<open>/mnt/usb/\<close>,
  which has two segments where the path has one: the inner loop compares the segments that
  both have and leaves \<^verbatim>\<open>match\<close> set, and no test says that the mount point is no longer
  than the path.
\<close>

theorem get_fs_selects_longer_mount:
  "rooted (get_path usb_mounted ''/mnt'')
   \<and> names (get_path usb_mounted ''/mnt'') = [''mnt'']
   \<and> map (\<lambda>m. prefix (mp_vec m) (names (get_path usb_mounted ''/mnt'')))
         (mount_point_list usb_mounted)
       = [True, False, False, False, False]
   \<and> get_fs (mount_point_list usb_mounted) (get_path usb_mounted ''/mnt'') = Some 4
   \<and> mp_vec (mount_point_list usb_mounted ! 4) = [''mnt'', ''usb'']"
  by code_simp

text \<open>
  Where the missing test does no harm. Let \<open>B\<close> be a rooted path and let the first entry of
  the registry be the root mount, as it is once \<^verbatim>\<open>vfs::init\<close> has run. Unless \<open>B\<close> is the
  global root, let no mount point lie strictly below \<open>B\<close> (no \<^verbatim>\<open>mp_vec\<close> has \<open>B\<close> as a proper
  prefix). Then \<^verbatim>\<open>get_fs\<close> selects a mount whose segments are a prefix of \<open>B\<close> and are the
  longest among the mounts whose segments are a prefix of \<open>B\<close>; when the segments of the
  mounts are pairwise distinct it is the only such mount; and when no mount other than a
  root mount has its segments a prefix of \<open>B\<close>, the selected mount is a root mount.
\<close>

lemma get_fs_longest_prefix:
  assumes first: "mpl \<noteq> []" "mp_vec (mpl ! 0) = []"
    and rooted: "rooted B"
    and below: "is_root B \<or> (\<forall>m \<in> set mpl. \<not> strict_prefix (names B) (mp_vec m))"
  shows "\<exists>i. get_fs mpl B = Some i \<and> i < length mpl
    \<and> prefix (mp_vec (mpl ! i)) (names B)
    \<and> (\<forall>j < length mpl. prefix (mp_vec (mpl ! j)) (names B)
          \<longrightarrow> length (mp_vec (mpl ! j)) \<le> length (mp_vec (mpl ! i)))
    \<and> (distinct (map mp_vec mpl)
          \<longrightarrow> (\<forall>j < length mpl. prefix (mp_vec (mpl ! j)) (names B)
                 \<and> length (mp_vec (mpl ! j)) = length (mp_vec (mpl ! i)) \<longrightarrow> j = i))
    \<and> ((\<forall>m \<in> set mpl. prefix (mp_vec m) (names B) \<longrightarrow> mp_vec m = []) \<longrightarrow> mp_vec (mpl ! i) = [])"
proof -
  have core: "\<exists>i. get_fs mpl B = Some i \<and> i < length mpl
    \<and> prefix (mp_vec (mpl ! i)) (names B)
    \<and> (\<forall>j < length mpl. prefix (mp_vec (mpl ! j)) (names B)
          \<longrightarrow> length (mp_vec (mpl ! j)) \<le> length (mp_vec (mpl ! i)))"
  proof (cases "is_root B")
    case True
    from first obtain m ms where mpl: "mpl = m # ms" by (cases mpl) auto
    with first have "first_empty_mp mpl 0 = Some 0" by simp
    with True have "get_fs mpl B = Some 0" by (simp add: get_fs_def)
    moreover from True have "names B = []" by (simp add: is_root_def)
    ultimately show ?thesis using first by auto
  next
    case False
    with below have nb: "\<forall>m \<in> set mpl. \<not> strict_prefix (names B) (mp_vec m)" by simp
    then have M: "\<And>m. m \<in> set mpl \<Longrightarrow> match_loop (mp_vec m) (names B) \<longleftrightarrow> prefix (mp_vec m) (names B)"
      by (simp add: match_loop_prefix)
    let ?r = "best_loop mpl B 0 0 0"
    from best_loop_spec [of mpl B 0 0 0]
    show ?thesis
    proof
      assume a: "?r = 0 \<and> (\<forall>m \<in> set mpl. match_loop (mp_vec m) (names B) \<longrightarrow> length (mp_vec m) \<le> 0)"
      with False first have g: "get_fs mpl B = Some 0" by (simp add: get_fs_def)
      have "\<forall>j < length mpl. prefix (mp_vec (mpl ! j)) (names B) \<longrightarrow> length (mp_vec (mpl ! j)) \<le> 0"
        using a M by (metis nth_mem)
      with g first show ?thesis by auto
    next
      assume "\<exists>j < length mpl. ?r = 0 + j
        \<and> match_loop (mp_vec (mpl ! j)) (names B)
        \<and> 0 < length (mp_vec (mpl ! j))
        \<and> (\<forall>m \<in> set mpl. match_loop (mp_vec m) (names B)
              \<longrightarrow> length (mp_vec m) \<le> length (mp_vec (mpl ! j)))
        \<and> (\<forall>j' < j. match_loop (mp_vec (mpl ! j')) (names B)
              \<longrightarrow> length (mp_vec (mpl ! j')) < length (mp_vec (mpl ! j)))"
      then obtain j where j: "j < length mpl" "?r = j" "match_loop (mp_vec (mpl ! j)) (names B)"
        "\<forall>m \<in> set mpl. match_loop (mp_vec m) (names B) \<longrightarrow> length (mp_vec m) \<le> length (mp_vec (mpl ! j))"
        by auto
      from False j(1,2) have g: "get_fs mpl B = Some j" by (simp add: get_fs_def)
      from j(1,3) M have p: "prefix (mp_vec (mpl ! j)) (names B)" by simp
      have "\<forall>j' < length mpl. prefix (mp_vec (mpl ! j')) (names B)
              \<longrightarrow> length (mp_vec (mpl ! j')) \<le> length (mp_vec (mpl ! j))"
        using j(4) M by (metis nth_mem)
      with g p j(1) show ?thesis by auto
    qed
  qed
  then obtain i where i: "get_fs mpl B = Some i" "i < length mpl"
    "prefix (mp_vec (mpl ! i)) (names B)"
    "\<forall>j < length mpl. prefix (mp_vec (mpl ! j)) (names B)
          \<longrightarrow> length (mp_vec (mpl ! j)) \<le> length (mp_vec (mpl ! i))"
    by blast
  have uniq: "distinct (map mp_vec mpl)
          \<longrightarrow> (\<forall>j < length mpl. prefix (mp_vec (mpl ! j)) (names B)
                 \<and> length (mp_vec (mpl ! j)) = length (mp_vec (mpl ! i)) \<longrightarrow> j = i)"
  proof (intro impI allI)
    fix j
    assume d: "distinct (map mp_vec mpl)" and jl: "j < length mpl"
      and pj: "prefix (mp_vec (mpl ! j)) (names B) \<and> length (mp_vec (mpl ! j)) = length (mp_vec (mpl ! i))"
    from pj i(3) have "mp_vec (mpl ! j) = mp_vec (mpl ! i)" by (auto intro: prefix_same_length)
    then have "map mp_vec mpl ! j = map mp_vec mpl ! i" using jl i(2) by simp
    moreover from d jl i(2) have "(map mp_vec mpl ! j = map mp_vec mpl ! i) = (j = i)"
      by (intro nth_eq_iff_index_eq) simp_all
    ultimately show "j = i" by blast
  qed
  have "(\<forall>m \<in> set mpl. prefix (mp_vec m) (names B) \<longrightarrow> mp_vec m = []) \<longrightarrow> mp_vec (mpl ! i) = []"
    using i(2,3) by auto
  with i uniq show ?thesis by blast
qed

text \<open>
  When the segments of a mount are a prefix of those of \<open>B\<close>, they and the segments of the
  backend-local path make up \<open>B\<close>.
\<close>

lemma get_fs_path_decomposition:
  "prefix (mp_vec m) (names B) \<Longrightarrow> mp_vec m @ names (get_fs_path B m) = names B"
  by (auto simp: get_fs_path_def sub_path_def prefix_def)

text \<open>
  Claim C2 says that the segments of \<open>B\<close> are the segments of the selected mount followed
  by those of the backend-local path. After \<^verbatim>\<open>vfs::init\<close> and a mount at \<^verbatim>\<open>/mnt/usb/\<close>,
  \<^verbatim>\<open>get_fs\<close> selects that mount for the path \<^verbatim>\<open>/mnt\<close>: the inner loop stops at the end of
  the path and leaves \<^verbatim>\<open>match\<close> set, although the mount point is longer than the path.
  The segments of the mount, followed by those of \<^verbatim>\<open>get_fs_path\<close>, are \<^verbatim>\<open>mnt, usb\<close> and not
  \<^verbatim>\<open>mnt\<close>.
\<close>

theorem get_fs_below_mount_point:
  "names (get_path usb_mounted ''/mnt'') = [''mnt'']
   \<and> get_fs (mount_point_list usb_mounted) (get_path usb_mounted ''/mnt'') = Some 4
   \<and> mp_vec (mount_point_list usb_mounted ! 4) = [''mnt'', ''usb'']
   \<and> mp_vec (mount_point_list usb_mounted ! 4)
       @ names (get_fs_path (get_path usb_mounted ''/mnt'') (mount_point_list usb_mounted ! 4))
      = [''mnt'', ''usb'']"
  by code_simp

subsection \<open>Mounting\<close>

lemma already_mounted_iff: "already_mounted ms mp \<longleftrightarrow> mp \<in> mount_point ` set ms"
  by (induction ms) auto

lemma join_segments_concat:
  "join_segments acc segs = acc @ concat (map (\<lambda>p. p @ ''/'') segs)"
  by (induction segs arbitrary: acc) auto

lemma split_from_segment:
  "sep \<notin> set s \<Longrightarrow>
   split_from sep cur (s @ sep # rest) =
     (if cur @ s = [] then split_from sep [] rest else (cur @ s) # split_from sep [] rest)"
  by (induction s arbitrary: cur) auto

lemma split_from_joined:
  "list_all (\<lambda>s. s \<noteq> [] \<and> sep \<notin> set s) segs \<Longrightarrow>
   split_from sep [] (concat (map (\<lambda>p. p @ [sep]) segs)) = segs"
proof (induction segs)
  case Nil
  show ?case by simp
next
  case (Cons s segs)
  then have s: "s \<noteq> []" "sep \<notin> set s" and rest: "list_all (\<lambda>s. s \<noteq> [] \<and> sep \<notin> set s) segs"
    by auto
  have "split_from sep [] (s @ sep # concat (map (\<lambda>p. p @ [sep]) segs))
        = s # split_from sep [] (concat (map (\<lambda>p. p @ [sep]) segs))"
    using split_from_segment [OF s(2), of "[]"] s(1) by simp
  with Cons.IH [OF rest] show ?case by simp
qed

lemma split_join_segments:
  assumes "valid_path p"
  shows "split (join_segments ''/'' (names p)) (CHR ''/'') = names p"
proof -
  have "split_from (CHR ''/'') [] (concat (map (\<lambda>p. p @ ''/'') (names p))) = names p"
    using assms split_from_joined [of "CHR ''/''" "names p"] by (simp add: valid_path_def)
  then show ?thesis by (simp add: split_def join_segments_concat)
qed

lemma mount_fd_handles: "handles (snd (vfs_mount_fd K be st type mp_fd dev_fd)) = handles st"
  by (simp add: vfs_mount_fd_def Let_def invoke_def split: option.splits prod.splits)

lemma mount_fd_already_mounted:
  assumes "has_handle st mp_fd" "has_handle st dev_fd"
    and "already_mounted (mount_point_list st) (join_segments ''/'' (names (get_handle st mp_fd)))"
  shows "vfs_mount_fd K be st type mp_fd dev_fd = (- int (ERROR_ALREADY_MOUNTED K), st)"
  using assms by (simp add: vfs_mount_fd_def Let_def)

lemma mount_fd_registry:
  "mount_point_list (snd (vfs_mount_fd K be st type mp_fd dev_fd)) = mount_point_list st
   \<or> (has_handle st mp_fd
       \<and> \<not> already_mounted (mount_point_list st) (join_segments ''/'' (names (get_handle st mp_fd)))
       \<and> (\<exists>dev fs. mount_point_list (snd (vfs_mount_fd K be st type mp_fd dev_fd)) =
             mount_point_list st
             @ [new_mounted_fs type dev (join_segments ''/'' (names (get_handle st mp_fd))) fs]))"
proof (cases "has_handle st mp_fd \<and> has_handle st dev_fd
    \<and> \<not> already_mounted (mount_point_list st) (join_segments ''/'' (names (get_handle st mp_fd)))")
  case False
  then have "snd (vfs_mount_fd K be st type mp_fd dev_fd) = st"
    by (auto simp: vfs_mount_fd_def Let_def)
  then show ?thesis by simp
next
  case True
  let ?mp = "join_segments ''/'' (names (get_handle st mp_fd))"
  let ?dev = "join_segments ''/'' (names (get_handle st dev_fd))"
  show ?thesis
  proof (cases "get_new_fs be type ?mp ?dev")
    case None
    with True have "snd (vfs_mount_fd K be st type mp_fd dev_fd) = st"
      by (simp add: vfs_mount_fd_def Let_def)
    then show ?thesis by simp
  next
    case (Some fs)
    with True have "mount_point_list (snd (vfs_mount_fd K be st type mp_fd dev_fd)) =
        mount_point_list st @ [new_mounted_fs type ?dev ?mp (snd (fs_init be fs))]"
      by (simp add: vfs_mount_fd_def Let_def invoke_def new_mounted_fs_def split: prod.splits)
    with True show ?thesis by blast
  qed
qed

lemma mp_vec_new_mounted_fs: "mp_vec (new_mounted_fs type dev mp fs) = split mp (CHR ''/'')"
  by (simp add: new_mounted_fs_def)

lemma mount_point_new_mounted_fs: "mount_point (new_mounted_fs type dev mp fs) = mp"
  by (simp add: new_mounted_fs_def)

lemma mount_fd_keeps_distinct:
  assumes canon: "canonical_mounts (mount_point_list st)"
    and dist: "distinct (map mp_vec (mount_point_list st))"
    and valid: "list_all valid_path (handles st)"
  shows "canonical_mounts (mount_point_list (snd (vfs_mount_fd K be st type mp_fd dev_fd)))
    \<and> distinct (map mp_vec (mount_point_list (snd (vfs_mount_fd K be st type mp_fd dev_fd))))
    \<and> list_all valid_path (handles (snd (vfs_mount_fd K be st type mp_fd dev_fd)))"
proof -
  let ?st' = "snd (vfs_mount_fd K be st type mp_fd dev_fd)"
  let ?mp = "join_segments ''/'' (names (get_handle st mp_fd))"
  have h: "list_all valid_path (handles ?st')" using valid by (simp add: mount_fd_handles)
  from mount_fd_registry [of K be st type mp_fd dev_fd]
  show ?thesis
  proof
    assume "mount_point_list ?st' = mount_point_list st"
    with canon dist h show ?thesis by simp
  next
    assume a: "has_handle st mp_fd \<and> \<not> already_mounted (mount_point_list st) ?mp
       \<and> (\<exists>dev fs. mount_point_list ?st' = mount_point_list st @ [new_mounted_fs type dev ?mp fs])"
    then obtain dev fs where new: "mount_point_list ?st' = mount_point_list st @ [new_mounted_fs type dev ?mp fs]"
      by blast
    from a valid have vp: "valid_path (get_handle st mp_fd)"
      by (simp add: has_handle_def get_handle_def list_all_length)
    then have vec: "mp_vec (new_mounted_fs type dev ?mp fs) = names (get_handle st mp_fd)"
      by (simp add: mp_vec_new_mounted_fs split_join_segments)
    have fresh: "names (get_handle st mp_fd) \<notin> mp_vec ` set (mount_point_list st)"
    proof
      assume "names (get_handle st mp_fd) \<in> mp_vec ` set (mount_point_list st)"
      then obtain m where m: "m \<in> set (mount_point_list st)" "mp_vec m = names (get_handle st mp_fd)"
        by auto
      with canon have "mount_point m = ?mp" by (simp add: canonical_mounts_def list_all_iff)
      with m(1) have "already_mounted (mount_point_list st) ?mp"
        unfolding already_mounted_iff by (metis imageI)
      with a show False by simp
    qed
    have "canonical_mounts (mount_point_list ?st')"
      using canon vec by (simp add: new canonical_mounts_def mount_point_new_mounted_fs)
    moreover have "distinct (map mp_vec (mount_point_list ?st'))"
      using dist fresh vec by (simp add: new)
    ultimately show ?thesis using h by simp
  qed
qed

lemma mount_fd_sequence_keeps_distinct:
  "canonical_mounts (mount_point_list st) \<Longrightarrow> distinct (map mp_vec (mount_point_list st))
   \<Longrightarrow> list_all valid_path (handles st)
   \<Longrightarrow> distinct (map mp_vec (mount_point_list (mount_fd_sequence K be st ops)))"
proof (induction ops arbitrary: st)
  case Nil
  then show ?case by simp
next
  case (Cons op ops)
  obtain type mp_fd dev_fd where op: "op = (type, mp_fd, dev_fd)" by (cases op) auto
  from mount_fd_keeps_distinct [OF Cons.prems, of K be type mp_fd dev_fd]
  show ?case unfolding op by (auto intro: Cons.IH)
qed

text \<open>
  The registry that \<^verbatim>\<open>vfs::init\<close> builds from an empty one, whatever the backends: its
  mount points are canonical and its segments vectors are pairwise distinct.
\<close>

lemma invoke_keeps_entries:
  "map (\<lambda>m. (fs_type m, device m, mount_point m, mp_vec m)) (mount_point_list (snd (invoke st i c f)))
   = map (\<lambda>m. (fs_type m, device m, mount_point m, mp_vec m)) (mount_point_list st)"
proof (cases "i < length (mount_point_list st)")
  case True
  then show ?thesis
    by (simp add: invoke_def Let_def split: prod.splits)
      (simp add: map_update list_update_same_conv)
next
  case False
  then show ?thesis by (simp add: invoke_def Let_def list_update_beyond split: prod.splits)
qed

lemma init_loop_keeps_entries:
  "map (\<lambda>m. (fs_type m, device m, mount_point m, mp_vec m)) (mount_point_list (init_loop be st is))
   = map (\<lambda>m. (fs_type m, device m, mount_point m, mp_vec m)) (mount_point_list st)"
  by (induction "is" arbitrary: st) (simp_all add: invoke_keeps_entries)

lemma init_registry:
  assumes "mount_point_list st = []"
  shows "map (\<lambda>m. (fs_type m, device m, mount_point m, mp_vec m)) (mount_point_list (vfs_init K be st))
    = [(FAT32, ''/dev/hda1'', ''/'', []), (SYSFS, ''none'', ''/sys/'', [''sys'']),
       (DEVFS, ''none'', ''/dev/'', [''dev'']), (PROCFS, ''none'', ''/proc/'', [''proc''])]"
  unfolding vfs_init_def Let_def init_loop_keeps_entries
  using assms by (simp add: vfs_mount_def get_new_fs_def new_mounted_fs_def split_def)

lemma init_registry_canonical:
  assumes "mount_point_list st = []"
  shows "canonical_mounts (mount_point_list (vfs_init K be st))
    \<and> distinct (map mp_vec (mount_point_list (vfs_init K be st)))"
proof -
  let ?mpl = "mount_point_list (vfs_init K be st)"
  have e: "map (\<lambda>m. (fs_type m, device m, mount_point m, mp_vec m)) ?mpl
    = [(FAT32, ''/dev/hda1'', ''/'', []), (SYSFS, ''none'', ''/sys/'', [''sys'']),
       (DEVFS, ''none'', ''/dev/'', [''dev'']), (PROCFS, ''none'', ''/proc/'', [''proc''])]"
    by (rule init_registry [OF assms])
  have v: "map mp_vec ?mpl = map (\<lambda>(t, d, m, v). v) (map (\<lambda>m. (fs_type m, device m, mount_point m, mp_vec m)) ?mpl)"
    by (simp add: comp_def)
  have c: "map (\<lambda>m. mount_point m = join_segments ''/'' (mp_vec m)) ?mpl
    = map (\<lambda>(t, d, m, v). m = join_segments ''/'' v) (map (\<lambda>m. (fs_type m, device m, mount_point m, mp_vec m)) ?mpl)"
    by (simp add: comp_def)
  have "list_all (\<lambda>b. b) (map (\<lambda>m. mount_point m = join_segments ''/'' (mp_vec m)) ?mpl)"
    unfolding c e by simp
  then have "canonical_mounts ?mpl" by (simp add: canonical_mounts_def list_all_iff)
  moreover have "distinct (map mp_vec ?mpl)" unfolding v e by simp
  ultimately show ?thesis ..
qed

text \<open>
  Claim C5, as it holds. Start from a registry whose mount points are canonical and whose
  segments vectors are pairwise distinct (the registry after \<^verbatim>\<open>vfs::init\<close> is one), the
  paths of the descriptors being valid. After any sequence of calls of the descriptor form
  of \<^verbatim>\<open>vfs::mount\<close>, no two entries of the registry have identical segments vectors. The
  descriptor form returns \<^verbatim>\<open>-ERROR_ALREADY_MOUNTED\<close> and leaves the state as it is when the
  joined mount-point string is the \<^verbatim>\<open>mount_point\<close> of an entry. Nothing is said of the
  raw-string form, which compares nothing.
\<close>

theorem mount_fd_no_identical_segments:
  assumes "canonical_mounts (mount_point_list st)"
    and "distinct (map mp_vec (mount_point_list st))"
    and "list_all valid_path (handles st)"
  shows "distinct (map mp_vec (mount_point_list (mount_fd_sequence K be st ops)))
    \<and> (\<forall>type mp_fd dev_fd.
          has_handle st mp_fd \<and> has_handle st dev_fd
          \<and> join_segments ''/'' (names (get_handle st mp_fd)) \<in> mount_point ` set (mount_point_list st)
          \<longrightarrow> vfs_mount_fd K be st type mp_fd dev_fd = (- int (ERROR_ALREADY_MOUNTED K), st))"
proof
  show "distinct (map mp_vec (mount_point_list (mount_fd_sequence K be st ops)))"
    using assms by (rule mount_fd_sequence_keeps_distinct)
next
  show "\<forall>type mp_fd dev_fd.
          has_handle st mp_fd \<and> has_handle st dev_fd
          \<and> join_segments ''/'' (names (get_handle st mp_fd)) \<in> mount_point ` set (mount_point_list st)
          \<longrightarrow> vfs_mount_fd K be st type mp_fd dev_fd = (- int (ERROR_ALREADY_MOUNTED K), st)"
    by (auto simp: already_mounted_iff intro!: mount_fd_already_mounted)
qed

text \<open>
  The theorem after \<^verbatim>\<open>vfs::init\<close> and two opened files: the same mount is asked for twice
  and the registry has five entries with distinct segments; asked a third time, the
  descriptor form answers \<^verbatim>\<open>-ERROR_ALREADY_MOUNTED\<close>.
\<close>

theorem mount_fd_no_identical_segments_witness:
  "canonical_mounts (mount_point_list usb_opened)
   \<and> list_all valid_path (handles usb_opened)
   \<and> distinct (map mp_vec (mount_point_list
        (mount_fd_sequence example_constants example_ops usb_opened [(FAT32, 0, 1), (FAT32, 0, 1)])))
   \<and> length (mount_point_list
        (mount_fd_sequence example_constants example_ops usb_opened [(FAT32, 0, 1), (FAT32, 0, 1)])) = 5
   \<and> vfs_mount_fd example_constants example_ops usb_mounted FAT32 0 1
       = (- int (ERROR_ALREADY_MOUNTED example_constants), usb_mounted)"
proof -
  have h1: "canonical_mounts (mount_point_list usb_opened)" by code_simp
  have h2: "distinct (map mp_vec (mount_point_list usb_opened))" by code_simp
  have h3: "list_all valid_path (handles usb_opened)" by code_simp
  have k1: "canonical_mounts (mount_point_list usb_mounted)" by code_simp
  have k2: "distinct (map mp_vec (mount_point_list usb_mounted))" by code_simp
  have k3: "list_all valid_path (handles usb_mounted)" by code_simp
  have k4: "has_handle usb_mounted 0 \<and> has_handle usb_mounted 1
    \<and> join_segments ''/'' (names (get_handle usb_mounted 0)) \<in> mount_point ` set (mount_point_list usb_mounted)"
    by code_simp
  have len: "length (mount_point_list
        (mount_fd_sequence example_constants example_ops usb_opened [(FAT32, 0, 1), (FAT32, 0, 1)])) = 5"
    by code_simp
  from mount_fd_no_identical_segments [OF h1 h2 h3, of example_constants example_ops "[(FAT32, 0, 1), (FAT32, 0, 1)]"]
    mount_fd_no_identical_segments [OF k1 k2 k3, of example_constants example_ops "[]"] k4 h1 h3 len
  show ?thesis by blast
qed

text \<open>
  Claim C5 as stated fails for the raw-string form: after \<^verbatim>\<open>vfs::init\<close>,
  \<^verbatim>\<open>mount(FAT32, "/sys/", "/dev/hda2")\<close> returns \<open>0\<close> and the registry has two entries
  whose segments are \<^verbatim>\<open>sys\<close>.
\<close>

theorem mount_raw_duplicate_counterexample:
  "fst (vfs_mount example_constants example_ops booted FAT32 ''/sys/'' ''/dev/hda2'') = 0
   \<and> map mp_vec (mount_point_list
        (snd (vfs_mount example_constants example_ops booted FAT32 ''/sys/'' ''/dev/hda2'')))
      = [[], [''sys''], [''dev''], [''proc''], [''sys'']]"
  by code_simp

text \<open>
  Claim C10. In the descriptor form of \<^verbatim>\<open>vfs::mount\<close>, with two valid descriptors: when
  the joined mount-point string is the \<^verbatim>\<open>mount_point\<close> of a live mount the call returns
  \<^verbatim>\<open>-ERROR_ALREADY_MOUNTED\<close> and leaves the state as it is, whatever the partition type,
  \<^verbatim>\<open>UNKNOWN\<close> included; and when the call returns \<^verbatim>\<open>-ERROR_INVALID_FILE_SYSTEM\<close> the
  mount point is not a duplicate. The two error codes are different numbers.
\<close>

theorem mount_fd_duplicate_before_backend:
  assumes "has_handle st mp_fd" and "has_handle st dev_fd"
    and "ERROR_INVALID_FILE_SYSTEM K \<noteq> ERROR_ALREADY_MOUNTED K"
  shows "(join_segments ''/'' (names (get_handle st mp_fd)) \<in> mount_point ` set (mount_point_list st)
          \<longrightarrow> vfs_mount_fd K be st type mp_fd dev_fd = (- int (ERROR_ALREADY_MOUNTED K), st))
    \<and> (fst (vfs_mount_fd K be st type mp_fd dev_fd) = - int (ERROR_INVALID_FILE_SYSTEM K)
          \<longrightarrow> join_segments ''/'' (names (get_handle st mp_fd)) \<notin> mount_point ` set (mount_point_list st))"
proof -
  let ?mp = "join_segments ''/'' (names (get_handle st mp_fd))"
  have dup: "?mp \<in> mount_point ` set (mount_point_list st)
      \<Longrightarrow> vfs_mount_fd K be st type mp_fd dev_fd = (- int (ERROR_ALREADY_MOUNTED K), st)"
    using assms(1,2) by (simp add: already_mounted_iff mount_fd_already_mounted)
  have "fst (vfs_mount_fd K be st type mp_fd dev_fd) = - int (ERROR_INVALID_FILE_SYSTEM K)
      \<Longrightarrow> ?mp \<notin> mount_point ` set (mount_point_list st)"
  proof
    assume r: "fst (vfs_mount_fd K be st type mp_fd dev_fd) = - int (ERROR_INVALID_FILE_SYSTEM K)"
      and "?mp \<in> mount_point ` set (mount_point_list st)"
    from dup [OF this(2)] r assms(3) show False by simp
  qed
  with dup show ?thesis by blast
qed

text \<open>
  The theorem for the partition type \<^verbatim>\<open>UNKNOWN\<close>: on a mount point that is mounted the
  answer is \<^verbatim>\<open>-ERROR_ALREADY_MOUNTED\<close>, on one that is not it is
  \<^verbatim>\<open>-ERROR_INVALID_FILE_SYSTEM\<close>.
\<close>

theorem mount_fd_duplicate_before_backend_witness:
  "has_handle usb_mounted 0 \<and> has_handle usb_mounted 1
   \<and> vfs_mount_fd example_constants example_ops usb_mounted UNKNOWN 0 1
       = (- int (ERROR_ALREADY_MOUNTED example_constants), usb_mounted)
   \<and> fst (vfs_mount_fd example_constants example_ops usb_opened UNKNOWN 0 1)
       = - int (ERROR_INVALID_FILE_SYSTEM example_constants)
   \<and> join_segments ''/'' (names (get_handle usb_opened 0)) \<notin> mount_point ` set (mount_point_list usb_opened)"
proof -
  have c: "ERROR_INVALID_FILE_SYSTEM example_constants \<noteq> ERROR_ALREADY_MOUNTED example_constants"
    by code_simp
  have h: "has_handle usb_mounted 0" "has_handle usb_mounted 1" by code_simp+
  have k: "has_handle usb_opened 0" "has_handle usb_opened 1" by code_simp+
  have dup: "join_segments ''/'' (names (get_handle usb_mounted 0)) \<in> mount_point ` set (mount_point_list usb_mounted)"
    by code_simp
  have r: "fst (vfs_mount_fd example_constants example_ops usb_opened UNKNOWN 0 1)
       = - int (ERROR_INVALID_FILE_SYSTEM example_constants)"
    by code_simp
  from mount_fd_duplicate_before_backend [OF h c, of example_ops UNKNOWN]
    mount_fd_duplicate_before_backend [OF k c, of example_ops UNKNOWN] dup r h
  show ?thesis by blast
qed

subsection \<open>Opening a file\<close>

lemma invoke_eq:
  "f (file_system (mount_point_list st ! i)) = (r, fs') \<Longrightarrow>
   invoke st i c f =
     (r, st\<lparr>mount_point_list := (mount_point_list st)[i := (mount_point_list st ! i)\<lparr>file_system := fs'\<rparr>],
           calls := calls st @ [(i, c)]\<rparr>)"
  by (simp add: invoke_def Let_def)

text \<open>
  A status below \<open>2^63\<close> is the same number as a \<^verbatim>\<open>size_t\<close> and as an \<^verbatim>\<open>int64_t\<close>, and its
  negation is the negative number; from \<open>2^63\<close> on the \<^verbatim>\<open>int64_t\<close> is negative.
\<close>

lemma to_int64_small: "n < 2 ^ 63 \<Longrightarrow> to_int64 n = int n"
proof -
  assume "n < 2 ^ 63"
  then have "int n < 2 ^ 63" by (metis of_nat_less_iff of_nat_numeral of_nat_power)
  then show ?thesis by (simp add: to_int64_def signed64_def Let_def)
qed

lemma to_int64_large: "2 ^ 63 \<le> n \<Longrightarrow> n < 2 ^ 64 \<Longrightarrow> to_int64 n = int n - 2 ^ 64"
proof -
  assume "2 ^ 63 \<le> n" "n < 2 ^ 64"
  then have "2 ^ 63 \<le> int n" "int n < 2 ^ 64"
    by (metis of_nat_le_iff of_nat_numeral of_nat_power, metis of_nat_less_iff of_nat_numeral of_nat_power)
  then show ?thesis by (simp add: to_int64_def signed64_def Let_def)
qed

lemma to_size_t_to_int64: "n < 2 ^ 64 \<Longrightarrow> to_size_t (to_int64 n) = int n"
proof -
  assume "n < 2 ^ 64"
  then have b: "int n < 2 ^ 64" by (metis of_nat_less_iff of_nat_numeral of_nat_power)
  have "(int n mod 2 ^ 64 - 2 ^ 64) mod 2 ^ 64 = int n mod 2 ^ 64"
    by (simp add: mod_diff_right_eq [symmetric])
  with b show ?thesis
    by (simp add: to_size_t_def to_int64_def signed64_def Let_def)
qed

lemma negated_small: "n \<le> 2 ^ 63 \<Longrightarrow> negated n = - int n"
proof (cases "n = 0")
  case True
  then show ?thesis by (simp add: negated_def signed64_def Let_def)
next
  case False
  assume "n \<le> 2 ^ 63"
  then have b: "int n \<le> 2 ^ 63" by (metis of_nat_le_iff of_nat_numeral of_nat_power)
  from False have p: "0 < int n" by simp
  have m: "(- int n) mod 2 ^ 64 = 2 ^ 64 - int n"
  proof -
    have "(- int n) mod 2 ^ 64 = (2 ^ 64 - int n) mod 2 ^ 64"
      by (metis add.commute mod_add_self2 uminus_add_conv_diff)
    also have "\<dots> = 2 ^ 64 - int n"
      by (rule mod_pos_pos_trivial) (use b p in simp_all)
    finally show ?thesis .
  qed
  show ?thesis
    unfolding negated_def signed64_def Let_def m using b p by simp
qed

text \<open>
  What \<^verbatim>\<open>open\<close> returns, for every status of \<^verbatim>\<open>get_file\<close> and of \<^verbatim>\<open>touch\<close>: the tests
  are those of the source, on the \<^verbatim>\<open>int64_t\<close> that holds the status.
\<close>

lemma open_after_get_file:
  assumes path: "file_path \<noteq> []"
    and fs: "get_fs (mount_point_list st) (get_path st file_path) = Some i"
    and fs_path: "fs_path = get_fs_path (get_path st file_path) (mount_point_list st ! i)"
    and local: "\<not> is_root fs_path"
    and get_file: "fs_get_file be (file_system (mount_point_list st ! i)) fs_path = ((r, f), fs1)"
    and touch: "fs_touch be fs1 fs_path = (t, fs2)"
  shows "vfs_open K be st file_path open_flags =
      (if open_flags AND OPEN_CREATE K \<noteq> 0 \<and> to_size_t (to_int64 r) = int (ERROR_NOT_EXISTS K)
       then (if 0 < to_int64 t
             then Some (- to_int64 t,
                        st\<lparr>mount_point_list :=
                             (mount_point_list st)[i := (mount_point_list st ! i)\<lparr>file_system := fs2\<rparr>],
                           calls := calls st @ [(i, Call_get_file fs_path), (i, Call_touch fs_path)]\<rparr>)
             else Some (int (length (handles st)),
                        st\<lparr>mount_point_list :=
                             (mount_point_list st)[i := (mount_point_list st ! i)\<lparr>file_system := fs2\<rparr>],
                           calls := calls st @ [(i, Call_get_file fs_path), (i, Call_touch fs_path)],
                           handles := handles st @ [get_path st file_path]\<rparr>))
       else (if 0 < to_int64 r
             then Some (- to_int64 r,
                        st\<lparr>mount_point_list :=
                             (mount_point_list st)[i := (mount_point_list st ! i)\<lparr>file_system := fs1\<rparr>],
                           calls := calls st @ [(i, Call_get_file fs_path)]\<rparr>)
             else Some (int (length (handles st)),
                        st\<lparr>mount_point_list :=
                             (mount_point_list st)[i := (mount_point_list st ! i)\<lparr>file_system := fs1\<rparr>],
                           calls := calls st @ [(i, Call_get_file fs_path)],
                           handles := handles st @ [get_path st file_path]\<rparr>)))"
proof -
  let ?p = "get_fs_path (get_path st file_path) (mount_point_list st ! i)"
  from fs have i: "i < length (mount_point_list st)" by (rule get_fs_Some_less)
  have g: "invoke st i (Call_get_file ?p) (\<lambda>fs. fs_get_file be fs ?p) =
      ((r, f), st\<lparr>mount_point_list := (mount_point_list st)[i := (mount_point_list st ! i)\<lparr>file_system := fs1\<rparr>],
                 calls := calls st @ [(i, Call_get_file ?p)]\<rparr>)"
    (is "_ = (_, ?st1)")
    using get_file unfolding fs_path by (simp add: invoke_eq)
  have tch: "invoke ?st1 i (Call_touch ?p) (\<lambda>fs. fs_touch be fs ?p) =
      (t, ?st1\<lparr>mount_point_list := (mount_point_list ?st1)[i := (mount_point_list ?st1 ! i)\<lparr>file_system := fs2\<rparr>],
                 calls := calls ?st1 @ [(i, Call_touch ?p)]\<rparr>)"
    using touch i unfolding fs_path by (simp add: invoke_eq)
  show ?thesis
    using path fs local i unfolding fs_path
    by (simp add: vfs_open_def g tch Let_def register_new_handle_def)
qed

text \<open>
  Claim C6. \<^verbatim>\<open>open\<close> is called with a path that is not empty and whose backend-local
  path \<open>fs_path\<close> is not empty; \<^verbatim>\<open>get_file\<close> of the backend answers the status \<open>r\<close>, and
  \<^verbatim>\<open>touch\<close> on the backend that \<^verbatim>\<open>get_file\<close> has left answers \<open>t\<close>; both are statuses of the
  error taxonomy, below \<open>2^63\<close>, so that the \<^verbatim>\<open>int64_t\<close> of \<^verbatim>\<open>open\<close> holds them unchanged. With
  \<^verbatim>\<open>OPEN_CREATE\<close> set: when \<open>r\<close> is \<^verbatim>\<open>ERROR_NOT_EXISTS\<close> and \<^verbatim>\<open>touch\<close> succeeds, \<^verbatim>\<open>open\<close> has
  called \<^verbatim>\<open>get_file\<close> and \<^verbatim>\<open>touch\<close>, registers a new descriptor for the absolute path and
  returns it; when \<open>r\<close> is \<^verbatim>\<open>ERROR_NOT_EXISTS\<close> and \<^verbatim>\<open>touch\<close> fails with \<open>t\<close>, \<^verbatim>\<open>open\<close> returns
  \<open>-t\<close>; when \<open>r\<close> is any other positive code, \<^verbatim>\<open>open\<close> returns \<open>-r\<close> without calling
  \<^verbatim>\<open>touch\<close>. Without \<^verbatim>\<open>OPEN_CREATE\<close> every positive \<open>r\<close> is returned as \<open>-r\<close>. No descriptor is
  registered when an error is returned. So the one error of the backend that \<^verbatim>\<open>open\<close> does
  not return is \<^verbatim>\<open>ERROR_NOT_EXISTS\<close> of \<^verbatim>\<open>get_file\<close> under \<^verbatim>\<open>OPEN_CREATE\<close>.
\<close>

theorem open_create:
  assumes path: "file_path \<noteq> []"
    and fs: "get_fs (mount_point_list st) (get_path st file_path) = Some i"
    and fs_path: "fs_path = get_fs_path (get_path st file_path) (mount_point_list st ! i)"
    and local: "\<not> is_root fs_path"
    and get_file: "fs_get_file be (file_system (mount_point_list st ! i)) fs_path = ((r, f), fs1)"
    and touch: "fs_touch be fs1 fs_path = (t, fs2)"
    and codes: "r < 2 ^ 63" "t < 2 ^ 63"
  shows "(open_flags AND OPEN_CREATE K \<noteq> 0 \<and> r = ERROR_NOT_EXISTS K \<and> t = 0 \<longrightarrow>
           (\<exists>st'. vfs_open K be st file_path open_flags = Some (int (length (handles st)), st')
              \<and> handles st' = handles st @ [get_path st file_path]
              \<and> calls st' = calls st @ [(i, Call_get_file fs_path), (i, Call_touch fs_path)]))
    \<and> (open_flags AND OPEN_CREATE K \<noteq> 0 \<and> r = ERROR_NOT_EXISTS K \<and> 0 < t \<longrightarrow>
           (\<exists>st'. vfs_open K be st file_path open_flags = Some (- int t, st')
              \<and> handles st' = handles st))
    \<and> (open_flags AND OPEN_CREATE K \<noteq> 0 \<and> 0 < r \<and> r \<noteq> ERROR_NOT_EXISTS K \<longrightarrow>
           (\<exists>st'. vfs_open K be st file_path open_flags = Some (- int r, st')
              \<and> handles st' = handles st
              \<and> calls st' = calls st @ [(i, Call_get_file fs_path)]))
    \<and> (open_flags AND OPEN_CREATE K = 0 \<and> 0 < r \<longrightarrow>
           (\<exists>st'. vfs_open K be st file_path open_flags = Some (- int r, st')
              \<and> handles st' = handles st
              \<and> calls st' = calls st @ [(i, Call_get_file fs_path)]))"
proof -
  from codes have r: "to_int64 r = int r" and t: "to_int64 t = int t"
    by (simp_all add: to_int64_small)
  from codes(1) have "r < 2 ^ 64" by simp
  then have "to_size_t (to_int64 r) = int r" by (rule to_size_t_to_int64)
  then have s: "to_size_t (int r) = int r" unfolding r .
  show ?thesis
    unfolding open_after_get_file [OF path fs fs_path local get_file touch] r t s
    by simp
qed

text \<open>
  At the root mount after \<^verbatim>\<open>init\<close>, with \<^verbatim>\<open>OPEN_CREATE\<close>: \<^verbatim>\<open>/a\<close> does not exist and is
  created, descriptor 0; \<^verbatim>\<open>/!a\<close> does not exist and \<^verbatim>\<open>touch\<close> fails with 9; \<^verbatim>\<open>get_file\<close> of
  \<^verbatim>\<open>/?a\<close> fails with 8.
\<close>

theorem open_create_witness:
  "(\<exists>st'. vfs_open example_constants example_ops booted ''/a'' 1 = Some (0, st')
      \<and> handles st' = [\<lparr>rooted = True, names = [''a'']\<rparr>]
      \<and> calls st' = calls booted @ [(0, Call_get_file \<lparr>rooted = True, names = [''a'']\<rparr>),
                                     (0, Call_touch \<lparr>rooted = True, names = [''a'']\<rparr>)])
   \<and> (\<exists>st'. vfs_open example_constants example_ops booted ''/!a'' 1 = Some (- 9, st')
      \<and> handles st' = [])
   \<and> (\<exists>st'. vfs_open example_constants example_ops booted ''/?a'' 1 = Some (- 8, st')
      \<and> handles st' = [])"
proof -
  have c: "(1::nat) AND OPEN_CREATE example_constants \<noteq> 0" by code_simp
  have h: "handles booted = []" by code_simp
  have n: "ERROR_NOT_EXISTS example_constants = 1" by code_simp
  have a1: "''/a'' \<noteq> []" by simp
  have a2: "get_fs (mount_point_list booted) (get_path booted ''/a'') = Some 0" by code_simp
  have a3: "\<not> is_root (get_fs_path (get_path booted ''/a'') (mount_point_list booted ! 0))" by code_simp
  have a4: "fs_get_file example_ops (file_system (mount_point_list booted ! 0))
      (get_fs_path (get_path booted ''/a'') (mount_point_list booted ! 0)) = ((1, example_file []), [])"
    by code_simp
  have a5: "fs_touch example_ops []
      (get_fs_path (get_path booted ''/a'') (mount_point_list booted ! 0)) = (0, [[''a'']])"
    by code_simp
  have a6: "get_path booted ''/a'' = \<lparr>rooted = True, names = [''a'']\<rparr>" by code_simp
  have a7: "get_fs_path (get_path booted ''/a'') (mount_point_list booted ! 0) = \<lparr>rooted = True, names = [''a'']\<rparr>"
    by code_simp
  have b1: "''/!a'' \<noteq> []" by simp
  have b2: "get_fs (mount_point_list booted) (get_path booted ''/!a'') = Some 0" by code_simp
  have b3: "\<not> is_root (get_fs_path (get_path booted ''/!a'') (mount_point_list booted ! 0))" by code_simp
  have b4: "fs_get_file example_ops (file_system (mount_point_list booted ! 0))
      (get_fs_path (get_path booted ''/!a'') (mount_point_list booted ! 0)) = ((1, example_file []), [])"
    by code_simp
  have b5: "fs_touch example_ops []
      (get_fs_path (get_path booted ''/!a'') (mount_point_list booted ! 0)) = (9, [])"
    by code_simp
  have s0: "(0::nat) < 2 ^ 63" and s1: "(1::nat) < 2 ^ 63" and s8: "(8::nat) < 2 ^ 63"
    and s9: "(9::nat) < 2 ^ 63" by simp_all
  have c1: "''/?a'' \<noteq> []" by simp
  have c2: "get_fs (mount_point_list booted) (get_path booted ''/?a'') = Some 0" by code_simp
  have c3: "\<not> is_root (get_fs_path (get_path booted ''/?a'') (mount_point_list booted ! 0))" by code_simp
  have c4: "fs_get_file example_ops (file_system (mount_point_list booted ! 0))
      (get_fs_path (get_path booted ''/?a'') (mount_point_list booted ! 0)) = ((8, example_file []), [])"
    by code_simp
  have c5: "fs_touch example_ops []
      (get_fs_path (get_path booted ''/?a'') (mount_point_list booted ! 0)) = (0, [[''?a'']])"
    by code_simp
  from open_create [OF a1 a2 refl a3 a4 a5 s1 s0, of 1 example_constants] c h n a6 a7
  have A: "\<exists>st'. vfs_open example_constants example_ops booted ''/a'' 1 = Some (0, st')
      \<and> handles st' = [\<lparr>rooted = True, names = [''a'']\<rparr>]
      \<and> calls st' = calls booted @ [(0, Call_get_file \<lparr>rooted = True, names = [''a'']\<rparr>),
                                     (0, Call_touch \<lparr>rooted = True, names = [''a'']\<rparr>)]"
    by auto
  from open_create [OF b1 b2 refl b3 b4 b5 s1 s9, of 1 example_constants] c h n
  have B: "\<exists>st'. vfs_open example_constants example_ops booted ''/!a'' 1 = Some (- 9, st')
      \<and> handles st' = []"
    by auto
  from open_create [OF c1 c2 refl c3 c4 c5 s8 s0, of 1 example_constants] c h n
  have C: "\<exists>st'. vfs_open example_constants example_ops booted ''/?a'' 1 = Some (- 8, st')
      \<and> handles st' = []"
    by auto
  from A B C show ?thesis by blast
qed

text \<open>
  A status of \<^verbatim>\<open>get_file\<close> from \<open>2^63\<close> on is a negative \<^verbatim>\<open>int64_t\<close>: the test
  \<^verbatim>\<open>sub_result > 0\<close> fails and \<^verbatim>\<open>open\<close> registers a descriptor, with or without
  \<^verbatim>\<open>OPEN_CREATE\<close>. No code of the error taxonomy is that large.
\<close>

lemma open_status_beyond_int64:
  assumes path: "file_path \<noteq> []"
    and fs: "get_fs (mount_point_list st) (get_path st file_path) = Some i"
    and fs_path: "fs_path = get_fs_path (get_path st file_path) (mount_point_list st ! i)"
    and local: "\<not> is_root fs_path"
    and get_file: "fs_get_file be (file_system (mount_point_list st ! i)) fs_path = ((r, f), fs1)"
    and touch: "fs_touch be fs1 fs_path = (t, fs2)"
    and large: "2 ^ 63 \<le> r" "r < 2 ^ 64" "r \<noteq> ERROR_NOT_EXISTS K"
  shows "\<exists>st'. vfs_open K be st file_path open_flags = Some (int (length (handles st)), st')
           \<and> handles st' = handles st @ [get_path st file_path]"
proof -
  from large have neg: "to_int64 r < 0"
  proof -
    from large(2) have "int r < 2 ^ 64" by (metis of_nat_less_iff of_nat_numeral of_nat_power)
    with to_int64_large [OF large(1,2)] show ?thesis by simp
  qed
  from large(2) have s: "to_size_t (to_int64 r) = int r" by (rule to_size_t_to_int64)
  show ?thesis
    unfolding open_after_get_file [OF path fs fs_path local get_file touch] s
    using neg large(3) by simp
qed

text \<open>
  The other operations do not absorb a status of the backend either. \<^verbatim>\<open>statfs\<close>, \<^verbatim>\<open>mkdir\<close>
  and \<^verbatim>\<open>rm\<close> return the status as the backend gave it, converted to the \<^verbatim>\<open>int64_t\<close> of the
  return type and not negated; \<^verbatim>\<open>stat\<close>, \<^verbatim>\<open>direct_write\<close>, \<^verbatim>\<open>entries\<close> and the string form of
  \<^verbatim>\<open>direct_read\<close> return a positive status negated.
\<close>

lemma statfs_status:
  assumes "mp \<noteq> []"
    and "get_fs (mount_point_list st) (get_path st mp) = Some i"
    and "fs_statfs be (file_system (mount_point_list st ! i)) info = ((r, info'), fs1)"
  shows "\<exists>st'. vfs_statfs K be st mp info = Some (to_int64 r, info', st')"
  using assms by (simp add: vfs_statfs_def Let_def invoke_eq)

lemma mkdir_status:
  assumes "file_path \<noteq> []"
    and "get_fs (mount_point_list st) (get_path st file_path) = Some i"
    and "fs_mkdir be (file_system (mount_point_list st ! i))
           (get_fs_path (get_path st file_path) (mount_point_list st ! i)) = (r, fs1)"
  shows "\<exists>st'. vfs_mkdir K be st file_path = Some (to_int64 r, st')"
  using assms by (simp add: vfs_mkdir_def Let_def invoke_eq)

lemma rm_status:
  assumes "file_path \<noteq> []"
    and "get_fs (mount_point_list st) (get_path st file_path) = Some i"
    and "fs_rm be (file_system (mount_point_list st ! i))
           (get_fs_path (get_path st file_path) (mount_point_list st ! i)) = (r, fs1)"
  shows "\<exists>st'. vfs_rm K be st file_path = Some (to_int64 r, st')"
  using assms by (simp add: vfs_rm_def Let_def invoke_eq)

lemma stat_status:
  assumes "has_handle st fd"
    and "get_fs (mount_point_list st) (get_handle st fd) = Some i"
    and "\<not> empty_path (get_fs_path (get_handle st fd) (mount_point_list st ! i))"
    and "fs_get_file be (file_system (mount_point_list st ! i))
           (get_fs_path (get_handle st fd) (mount_point_list st ! i)) = ((r, f), fs1)"
    and "0 < r"
  shows "\<exists>st'. vfs_stat K be st fd info = Some (negated r, info, st') \<and> handles st' = handles st"
  using assms by (simp add: vfs_stat_def Let_def invoke_eq)

lemma direct_write_status:
  assumes "get_fs (mount_point_list st) (get_path st file_path) = Some i"
    and "fs_write be (file_system (mount_point_list st ! i))
           (get_fs_path (get_path st file_path) (mount_point_list st ! i)) buffer count offset
         = ((r, written), fs1)"
    and "0 < r"
  shows "\<exists>st'. vfs_direct_write K be st file_path buffer count offset = Some (negated r, st')"
  using assms by (simp add: vfs_direct_write_def Let_def invoke_eq)

lemma entries_status:
  assumes "has_handle st fd"
    and "get_fs (mount_point_list st) (get_handle st fd) = Some i"
    and "fs_ls be (file_system (mount_point_list st ! i))
           (get_fs_path (get_handle st fd) (mount_point_list st ! i)) = ((r, files), fs1)"
    and "0 < r"
  shows "\<exists>st'. vfs_entries K be st fd buffer buffer_size = Some (negated r, buffer, st')"
  using assms by (simp add: vfs_entries_def Let_def invoke_eq)

lemma direct_read_string_status:
  assumes "get_fs (mount_point_list st) (get_path st file_path) = Some i"
    and "fs_get_file be (file_system (mount_point_list st ! i))
           (get_fs_path (get_path st file_path) (mount_point_list st ! i)) = ((r, f), fs1)"
    and "0 < r"
  shows "\<exists>st'. vfs_direct_read_string K be st file_path content = Some (negated r, content, st')"
  using assms by (simp add: vfs_direct_read_string_def Let_def invoke_eq)

subsection \<open>\<^verbatim>\<open>stat\<close> of the root of a mount\<close>

text \<open>
  Claim C7, as it holds. For a valid descriptor whose backend-local path is empty,
  \<^verbatim>\<open>stat\<close> returns \<open>0\<close>, sets \<^verbatim>\<open>info.size\<close> to \<open>4096\<close> and \<^verbatim>\<open>info.flags\<close> to
  \<^verbatim>\<open>STAT_FLAG_DIRECTORY\<close>, and leaves \<^verbatim>\<open>created\<close>, \<^verbatim>\<open>modified\<close> and \<^verbatim>\<open>accessed\<close> of \<^verbatim>\<open>info\<close>
  as the caller has passed them. The state it returns is the state it was given: no call of
  the backend is made, \<^verbatim>\<open>get_file\<close> included.
\<close>

theorem stat_mount_root:
  assumes "has_handle st fd"
    and "get_fs (mount_point_list st) (get_handle st fd) = Some i"
    and "empty_path (get_fs_path (get_handle st fd) (mount_point_list st ! i))"
  shows "vfs_stat K be st fd info =
           Some (0, info\<lparr>size_info := 4096, flags := STAT_FLAG_DIRECTORY K\<rparr>, st)"
  using assms by (simp add: vfs_stat_def Let_def)

text \<open>The theorem for the descriptor of \<^verbatim>\<open>/sys/\<close>, with an \<^verbatim>\<open>info\<close> that is all zero.\<close>

theorem stat_mount_root_witness:
  "has_handle sys_opened 0
   \<and> names (get_handle sys_opened 0) = [''sys'']
   \<and> get_fs (mount_point_list sys_opened) (get_handle sys_opened 0) = Some 1
   \<and> vfs_stat example_constants example_ops sys_opened 0
        \<lparr>size_info = 0, flags = 0, created_info = 0, modified_info = 0, accessed_info = 0\<rparr>
      = Some (0, \<lparr>size_info = 4096, flags = STAT_FLAG_DIRECTORY example_constants,
                  created_info = 0, modified_info = 0, accessed_info = 0\<rparr>, sys_opened)"
proof -
  have h1: "has_handle sys_opened 0" by code_simp
  have h2: "get_fs (mount_point_list sys_opened) (get_handle sys_opened 0) = Some 1" by code_simp
  have h3: "empty_path (get_fs_path (get_handle sys_opened 0) (mount_point_list sys_opened ! 1))"
    by code_simp
  have h4: "names (get_handle sys_opened 0) = [''sys'']" by code_simp
  from stat_mount_root [OF h1 h2 h3, of example_constants example_ops
      "\<lparr>size_info = 0, flags = 0, created_info = 0, modified_info = 0, accessed_info = 0\<rparr>"] h1 h2 h4
  show ?thesis by simp
qed

text \<open>
  Claim C7 as stated fails on the timestamps: they are not set to \<open>0\<close>. With an
  \<^verbatim>\<open>info\<close> whose timestamps are \<open>7\<close>, \<open>8\<close> and \<open>9\<close>, \<^verbatim>\<open>stat\<close> of the descriptor of
  \<^verbatim>\<open>/sys/\<close> returns them as they are.
\<close>

theorem stat_mount_root_timestamps_counterexample:
  "vfs_stat example_constants example_ops sys_opened 0
     \<lparr>size_info = 0, flags = 0, created_info = 7, modified_info = 8, accessed_info = 9\<rparr>
   = Some (0, \<lparr>size_info = 4096, flags = 1, created_info = 7, modified_info = 8,
               accessed_info = 9\<rparr>, sys_opened)"
  by code_simp

subsection \<open>The empty path string\<close>

text \<open>
  \<^verbatim>\<open>open\<close>, \<^verbatim>\<open>mkdir\<close>, \<^verbatim>\<open>rm\<close> and \<^verbatim>\<open>statfs\<close> test the path string: the empty string is
  rejected with \<^verbatim>\<open>-ERROR_INVALID_FILE_PATH\<close> and the state is the one given.
\<close>

lemma empty_path_rejected:
  "vfs_open K be st [] open_flags = Some (- int (ERROR_INVALID_FILE_PATH K), st)"
  "vfs_mkdir K be st [] = Some (- int (ERROR_INVALID_FILE_PATH K), st)"
  "vfs_rm K be st [] = Some (- int (ERROR_INVALID_FILE_PATH K), st)"
  "vfs_statfs K be st [] sinfo = Some (- int (ERROR_INVALID_FILE_PATH K), sinfo, st)"
  by (simp_all add: vfs_open_def vfs_mkdir_def vfs_rm_def vfs_statfs_def)

text \<open>
  The buffer form of \<^verbatim>\<open>direct_read\<close> has no such test: the empty string is resolved against
  the working directory, and \<^verbatim>\<open>read\<close> of the backend is called.
\<close>

lemma empty_path_read_calls_backend:
  assumes "get_fs (mount_point_list st) (get_working_directory st) = Some i"
    and "vfs_direct_read K be st [] buffer count offset = Some (r, buffer', st')"
  shows "calls st' = calls st @ [(i, Call_read (get_fs_path (get_working_directory st) (mount_point_list st ! i)) count offset)]"
proof -
  have p: "get_path st [] = get_working_directory st"
    by (cases "get_working_directory st") (simp add: get_path_def path_of_base_def split_def)
  from assms show ?thesis
    unfolding vfs_direct_read_def p
    by (auto simp: Let_def invoke_def split: prod.splits option.splits if_splits)
qed

text \<open>
  Claim C8 says that \<^verbatim>\<open>direct_read\<close> and \<^verbatim>\<open>direct_write\<close> too, called with the empty string,
  fail with \<^verbatim>\<open>-ERROR_INVALID_FILE_PATH\<close> and call no backend. After \<^verbatim>\<open>vfs::init\<close>, with the
  root as working directory, \<^verbatim>\<open>direct_read\<close> of the empty string calls \<^verbatim>\<open>read\<close> of the root
  backend and returns the negation of the backend's status, \<open>-1\<close>; \<^verbatim>\<open>direct_write\<close>
  calls \<^verbatim>\<open>write\<close> and returns the count written, \<open>4\<close>. \<^verbatim>\<open>-ERROR_INVALID_FILE_PATH\<close> is
  \<open>-2\<close> here.
\<close>

theorem direct_read_empty_path:
  "vfs_direct_read example_constants example_ops booted [] ''xxxx'' 4 0
     = Some (- 1, ''xxxx'', booted\<lparr>calls := calls booted @ [(0, Call_read \<lparr>rooted = True, names = []\<rparr> 4 0)]\<rparr>)
   \<and> vfs_direct_write example_constants example_ops booted [] ''xxxx'' 4 0
     = Some (4, booted\<lparr>calls := calls booted @ [(0, Call_write \<lparr>rooted = True, names = []\<rparr> 4 0)]\<rparr>)
   \<and> ERROR_INVALID_FILE_PATH example_constants = 2"
  by code_simp

subsection \<open>Reading a file into a string\<close>





subsection \<open>The directory listing\<close>

lemma length_low_bytes: "length (low_bytes k n) = k"
  by (induction k arbitrary: n) auto

lemma length_size_t_bytes: "length (size_t_bytes n) = 8"
  by (simp add: size_t_bytes_def sizeof_size_t_def length_low_bytes)

lemma cut_buffer: "n \<le> length xs \<Longrightarrow> \<exists>a b. xs = a @ b \<and> length a = n"
  by (rule exI [of _ "take n xs"], rule exI [of _ "drop n xs"]) simp

lemma store_within:
  "length pre = pos \<Longrightarrow> length old = length bs \<Longrightarrow>
   store (pre @ old @ post) pos bs = Some (pre @ bs @ post)"
  by (simp add: store_def)

lemma entries_total_sum:
  "entries_total sz files acc = acc + (\<Sum>f\<leftarrow>files. sz + length (file_name f))"
  by (induction files arbitrary: acc) auto

lemma write_entry:
  assumes fit: "p + (length name + 25) \<le> length buffer"
  shows "stores buffer
           [(p + entry_type, size_t_bytes 0),
            (p + entry_length, size_t_bytes (length name)),
            (p + entry_offset_next, size_t_bytes off),
            (p + entry_name, name),
            (p + entry_name + length name, [CHR 0x00])]
         = Some (take p buffer @ directory_entry_bytes name off @ drop (p + (length name + 25)) buffer)"
proof -
  from fit obtain pre r0 where b0: "buffer = pre @ r0" and pre: "length pre = p"
    using cut_buffer [of p buffer] by auto
  with fit have "8 \<le> length r0" by simp
  then obtain x0 r1 where b1: "r0 = x0 @ r1" and x0: "length x0 = 8"
    using cut_buffer [of 8 r0] by auto
  with fit b0 pre have "8 \<le> length r1" by simp
  then obtain x1 r2 where b2: "r1 = x1 @ r2" and x1: "length x1 = 8"
    using cut_buffer [of 8 r1] by auto
  with fit b0 b1 pre x0 have "8 \<le> length r2" by simp
  then obtain x2 r3 where b3: "r2 = x2 @ r3" and x2: "length x2 = 8"
    using cut_buffer [of 8 r2] by auto
  with fit b0 b1 b2 pre x0 x1 have "length name \<le> length r3" by simp
  then obtain x3 r4 where b4: "r3 = x3 @ r4" and x3: "length x3 = length name"
    using cut_buffer [of "length name" r3] by auto
  with fit b0 b1 b2 b3 pre x0 x1 x2 have "1 \<le> length r4" by simp
  then obtain x4 post where b5: "r4 = x4 @ post" and x4: "length x4 = 1"
    using cut_buffer [of 1 r4] by auto
  have buffer: "buffer = pre @ x0 @ x1 @ x2 @ x3 @ x4 @ post"
    by (simp add: b0 b1 b2 b3 b4 b5)
  let ?T = "size_t_bytes 0" and ?L = "size_t_bytes (length name)" and ?O = "size_t_bytes off"
  have s1: "store (pre @ x0 @ x1 @ x2 @ x3 @ x4 @ post) (p + entry_type) ?T
      = Some (pre @ x0 @ ?T @ x2 @ x3 @ x4 @ post)"
    using store_within [of "pre @ x0" "p + 8" x1 ?T "x2 @ x3 @ x4 @ post"] pre x0 x1
    by (simp add: entry_type_def length_size_t_bytes)
  have s2: "store (pre @ x0 @ ?T @ x2 @ x3 @ x4 @ post) (p + entry_length) ?L
      = Some (pre @ x0 @ ?T @ ?L @ x3 @ x4 @ post)"
    using store_within [of "pre @ x0 @ ?T" "p + 16" x2 ?L "x3 @ x4 @ post"] pre x0 x2
    by (simp add: entry_length_def length_size_t_bytes)
  have s3: "store (pre @ x0 @ ?T @ ?L @ x3 @ x4 @ post) (p + entry_offset_next) ?O
      = Some (pre @ ?O @ ?T @ ?L @ x3 @ x4 @ post)"
    using store_within [of pre p x0 ?O "?T @ ?L @ x3 @ x4 @ post"] pre x0
    by (simp add: entry_offset_next_def length_size_t_bytes)
  have s4: "store (pre @ ?O @ ?T @ ?L @ x3 @ x4 @ post) (p + entry_name) name
      = Some (pre @ ?O @ ?T @ ?L @ name @ x4 @ post)"
    using store_within [of "pre @ ?O @ ?T @ ?L" "p + 24" x3 name "x4 @ post"] pre x3
    by (simp add: entry_name_def length_size_t_bytes)
  have s5: "store (pre @ ?O @ ?T @ ?L @ name @ x4 @ post) (p + entry_name + length name) [CHR 0x00]
      = Some (pre @ ?O @ ?T @ ?L @ name @ [CHR 0x00] @ post)"
    using store_within [of "pre @ ?O @ ?T @ ?L @ name" "p + 24 + length name" x4 "[CHR 0x00]" post] pre x4
    by (simp add: entry_name_def length_size_t_bytes)
  have t: "take p buffer = pre" using pre by (simp add: buffer)
  have d: "drop (p + (length name + 25)) buffer = post"
    using pre x0 x1 x2 x3 x4 by (simp add: buffer)
  show ?thesis
    unfolding t d unfolding buffer
    by (simp only: stores.simps s1 s2 s3 s4 s5 option.case directory_entry_bytes_def append_assoc)
qed

lemma length_directory_entry_bytes: "length (directory_entry_bytes name off) = length name + 25"
  by (simp add: directory_entry_bytes_def length_size_t_bytes)

lemma length_directory_listing:
  "length (directory_listing ns) = (\<Sum>n\<leftarrow>ns. length n + 25)"
  by (induction ns rule: directory_listing.induct) (simp_all add: length_directory_entry_bytes)

lemma entries_loop_Cons:
  "entries_loop (f # rest) p buffer =
     (case stores buffer
             [(p + entry_type, size_t_bytes 0),
              (p + entry_length, size_t_bytes (length (file_name f))),
              (p + entry_offset_next,
               size_t_bytes (if rest \<noteq> [] then length (file_name f) + 25 else 0)),
              (p + entry_name, file_name f),
              (p + entry_name + length (file_name f), [CHR 0x00])] of
        None \<Rightarrow> None
      | Some buffer' \<Rightarrow>
          entries_loop rest (if rest \<noteq> [] then p + (length (file_name f) + 25) else p) buffer')"
proof (cases rest)
  case Nil
  show ?thesis unfolding Nil
    by (subst entries_loop.simps) (simp only: Let_def if_False simp_thms)
next
  case (Cons g gs)
  have e: "length (file_name f) + 1 + 3 * 8 = length (file_name f) + 25" by simp
  show ?thesis unfolding Cons
    by (subst entries_loop.simps) (simp only: Let_def e list.distinct if_True simp_thms)
qed

lemma entries_loop_listing:
  "p + (\<Sum>f\<leftarrow>files. length (file_name f) + 25) \<le> length buffer \<Longrightarrow>
   entries_loop files p buffer =
     Some (take p buffer @ directory_listing (map file_name files)
           @ drop (p + (\<Sum>f\<leftarrow>files. length (file_name f) + 25)) buffer)"
proof (induction files arbitrary: p buffer)
  case Nil
  show ?case by simp
next
  case (Cons f rest)
  let ?len = "length (file_name f)"
  let ?W = "\<Sum>f\<leftarrow>rest. length (file_name f) + 25"
  from Cons.prems have fit: "p + (?len + 25) \<le> length buffer" by simp
  show ?case
  proof (cases rest)
    case Nil
    have "entries_loop (f # rest) p buffer =
        Some (take p buffer @ directory_entry_bytes (file_name f) 0 @ drop (p + (?len + 25)) buffer)"
      unfolding entries_loop_Cons
      by (simp only: Nil write_entry [OF fit] option.case entries_loop.simps if_False simp_thms)
    then show ?thesis using Nil by simp
  next
    case (Cons g gs)
    then have ne: "rest \<noteq> []" by simp
    let ?b = "take p buffer @ directory_entry_bytes (file_name f) (?len + 25)
              @ drop (p + (?len + 25)) buffer"
    have lb: "length ?b = length buffer"
      using fit by (simp add: length_directory_entry_bytes)
    have tk: "take (p + (?len + 25)) ?b = take p buffer @ directory_entry_bytes (file_name f) (?len + 25)"
      using fit by (simp add: length_directory_entry_bytes)
    have dr: "drop (p + (?len + 25) + ?W) ?b = drop (p + (?len + 25) + ?W) buffer"
      using fit by (simp add: length_directory_entry_bytes ac_simps)
    from Cons.prems lb have "p + (?len + 25) + ?W \<le> length ?b" by simp
    from Cons.IH [OF this]
    have ih: "entries_loop rest (p + (?len + 25)) ?b =
        Some (take p buffer @ directory_entry_bytes (file_name f) (?len + 25)
              @ directory_listing (map file_name rest)
              @ drop (p + (?len + 25) + ?W) buffer)"
      unfolding tk dr by simp
    have step: "entries_loop (f # rest) p buffer = entries_loop rest (p + (?len + 25)) ?b"
      unfolding entries_loop_Cons
      by (simp only: ne write_entry [OF fit] option.case if_True simp_thms)
    have lst: "directory_listing (map file_name (f # rest)) =
        directory_entry_bytes (file_name f) (?len + 25) @ directory_listing (map file_name rest)"
      using Cons by (simp add: add.commute)
    show ?thesis
      unfolding step ih lst by (simp add: add.assoc)
  qed
qed

lemma listing_le_total:
  "3 * 8 + 1 \<le> sz \<Longrightarrow>
   (\<Sum>f\<leftarrow>files. length (file_name f) + (3 * 8 + 1)) \<le> (\<Sum>f\<leftarrow>files. sz + length (file_name f))"
  by (induction files) auto

text \<open>
  Claim C3, as it holds. The descriptor is valid and resolves to a mount, and \<^verbatim>\<open>ls\<close> of the
  backend succeeds with \<open>files\<close>. \<^verbatim>\<open>ERROR_BUFFER_SMALL\<close> is a positive code,
  \<^verbatim>\<open>sizeof(directory_entry)\<close> is at least the \<open>3 * 8 + 1\<close> bytes of the three fields and the
  first byte of the name, and the buffer has the \<open>buffer_size\<close> bytes that the caller says.
  Then \<^verbatim>\<open>entries\<close> fails with \<^verbatim>\<open>-ERROR_BUFFER_SMALL\<close> exactly when \<open>buffer_size\<close> is less
  than the sum over the files of \<^verbatim>\<open>sizeof(directory_entry)\<close> plus the length of the name.
  Otherwise it returns that sum, and the buffer holds the listing followed by the bytes it
  had there before: the bytes written are those of the listing, \<open>3 * 8 + 1\<close> plus the
  length of the name for every file, which is no more than the sum returned. In the
  listing \<^verbatim>\<open>offset_next\<close> is the length of the name plus \<open>1 + 3 * 8\<close> in every entry but the
  last, and \<open>0\<close> in the last.
\<close>

theorem entries_listing:
  assumes handle: "has_handle st fd"
    and fs: "get_fs (mount_point_list st) (get_handle st fd) = Some i"
    and fs_path: "fs_path = get_fs_path (get_handle st fd) (mount_point_list st ! i)"
    and ls: "fs_ls be (file_system (mount_point_list st ! i)) fs_path = ((0, files), fs1)"
    and code: "0 < ERROR_BUFFER_SMALL K"
    and header: "3 * 8 + 1 \<le> sizeof_directory_entry K"
    and buffer: "buffer_size \<le> length buffer"
  shows "((\<exists>b st'. vfs_entries K be st fd buffer buffer_size
                    = Some (- int (ERROR_BUFFER_SMALL K), b, st'))
          \<longleftrightarrow> buffer_size < (\<Sum>f\<leftarrow>files. sizeof_directory_entry K + length (file_name f)))
    \<and> ((\<Sum>f\<leftarrow>files. sizeof_directory_entry K + length (file_name f)) \<le> buffer_size \<longrightarrow>
          (\<exists>st'. vfs_entries K be st fd buffer buffer_size
                   = Some (int (\<Sum>f\<leftarrow>files. sizeof_directory_entry K + length (file_name f)),
                           directory_listing (map file_name files)
                           @ drop (\<Sum>f\<leftarrow>files. length (file_name f) + (3 * 8 + 1)) buffer,
                           st')))
    \<and> length (directory_listing (map file_name files))
        = (\<Sum>f\<leftarrow>files. length (file_name f) + (3 * 8 + 1))
    \<and> (\<Sum>f\<leftarrow>files. length (file_name f) + (3 * 8 + 1))
        \<le> (\<Sum>f\<leftarrow>files. sizeof_directory_entry K + length (file_name f))"
proof -
  let ?p = "get_fs_path (get_handle st fd) (mount_point_list st ! i)"
  let ?T = "\<Sum>f\<leftarrow>files. sizeof_directory_entry K + length (file_name f)"
  let ?W = "\<Sum>f\<leftarrow>files. length (file_name f) + 25"
  have l: "invoke st i (Call_ls ?p) (\<lambda>fs. fs_ls be fs ?p) =
      ((0, files), st\<lparr>mount_point_list := (mount_point_list st)[i := (mount_point_list st ! i)\<lparr>file_system := fs1\<rparr>],
                     calls := calls st @ [(i, Call_ls ?p)]\<rparr>)"
    (is "_ = (_, ?st1)")
    using ls unfolding fs_path by (simp add: invoke_eq)
  have WT: "?W \<le> ?T" using listing_le_total [OF header, of files] by simp
  have res: "vfs_entries K be st fd buffer buffer_size =
      (if buffer_size < ?T then Some (- int (ERROR_BUFFER_SMALL K), buffer, ?st1)
       else (case entries_loop files 0 buffer of
               None \<Rightarrow> None
             | Some buffer' \<Rightarrow> Some (int ?T, buffer', ?st1)))"
    using handle fs by (simp add: vfs_entries_def l Let_def entries_total_sum)
  have ok: "vfs_entries K be st fd buffer buffer_size =
      Some (int ?T, directory_listing (map file_name files) @ drop ?W buffer, ?st1)"
    if "?T \<le> buffer_size"
  proof -
    from that WT buffer have "0 + ?W \<le> length buffer" by simp
    from entries_loop_listing [OF this] that show ?thesis
      unfolding res by simp
  qed
  have iff: "(\<exists>b st'. vfs_entries K be st fd buffer buffer_size
                    = Some (- int (ERROR_BUFFER_SMALL K), b, st')) \<longleftrightarrow> buffer_size < ?T"
  proof (cases "buffer_size < ?T")
    case True
    then show ?thesis unfolding res by simp
  next
    case False
    then have "?T \<le> buffer_size" by simp
    from ok [OF this] code False show ?thesis by simp
  qed
  from iff ok WT show ?thesis
    by (simp add: length_directory_listing comp_def)
qed

text \<open>
  The theorem for a directory with the one file \<^verbatim>\<open>usb\<close> and a buffer of 35 bytes, with
  \<^verbatim>\<open>sizeof(directory_entry)\<close> being 32: 35 is returned and the listing takes 28 bytes.
\<close>

theorem entries_listing_witness:
  "has_handle usb_opened 0
   \<and> (\<exists>st'. vfs_entries example_constants example_ops usb_opened 0 (replicate 35 (CHR ''x'')) 35
        = Some (35, directory_listing [''usb''] @ ''xxxxxxx'', st'))
   \<and> length (directory_listing [''usb'']) = 28"
proof -
  let ?p = "get_fs_path (get_handle usb_opened 0) (mount_point_list usb_opened ! 0)"
  have h1: "has_handle usb_opened 0" by code_simp
  have h2: "get_fs (mount_point_list usb_opened) (get_handle usb_opened 0) = Some 0" by code_simp
  have h3: "fs_ls example_ops (file_system (mount_point_list usb_opened ! 0)) ?p
      = ((0, [example_file [''mnt'', ''usb'']]), [[''mnt'', ''usb'']])"
    by code_simp
  have h4: "0 < ERROR_BUFFER_SMALL example_constants" by code_simp
  have h5: "3 * 8 + 1 \<le> sizeof_directory_entry example_constants" by code_simp
  have h6: "35 \<le> length (replicate 35 (CHR ''x''))" by simp
  have n: "file_name (example_file [''mnt'', ''usb'']) = ''usb''" by code_simp
  have s: "sizeof_directory_entry example_constants = 32" by code_simp
  have d: "drop 28 (replicate 35 (CHR ''x'')) = ''xxxxxxx''" by code_simp
  from entries_listing [OF h1 h2 refl h3 h4 h5 h6] h1 n s d
  show ?thesis by simp
qed

text \<open>
  Claim C3 as stated fails on the number of bytes written. With \<^verbatim>\<open>sizeof(directory_entry)\<close>
  being 32 and the one file \<^verbatim>\<open>usb\<close>, \<^verbatim>\<open>entries\<close> returns 35, and the bytes 28 to 34 of the
  buffer are still those of the caller, whatever they were: 28 bytes are written, not 35.
\<close>

theorem entries_bytes_written_counterexample:
  "sizeof_directory_entry example_constants = 32
   \<and> map_option (\<lambda>(r, b, st'). (r, drop 28 b))
        (vfs_entries example_constants example_ops usb_opened 0 (replicate 35 (CHR ''x'')) 35)
      = Some (35, ''xxxxxxx'')
   \<and> map_option (\<lambda>(r, b, st'). (r, drop 28 b))
        (vfs_entries example_constants example_ops usb_opened 0 (replicate 35 (CHR ''y'')) 35)
      = Some (35, ''yyyyyyy'')"
  by code_simp

subsection \<open>The mount listing\<close>

lemma mounts_total_sum:
  "mounts_total mpl acc = acc + (\<Sum>mp\<leftarrow>mpl. mount_record_size mp)"
  by (induction mpl arbitrary: acc) (auto simp: mount_record_size_def)

lemma length_mount_record_bytes: "length (mount_record_bytes mp off) = mount_record_size mp"
  by (simp add: mount_record_bytes_def mount_record_size_def length_size_t_bytes sizeof_size_t_def)

lemma length_mount_listing: "length (mount_listing mpl) = (\<Sum>mp\<leftarrow>mpl. mount_record_size mp)"
  by (induction mpl rule: mount_listing.induct) (simp_all add: length_mount_record_bytes)

lemma mounts_loop_Cons:
  "mounts_loop (mp # rest) p buffer =
     (case stores buffer
             [(p + mp_length_mp, size_t_bytes (length (mount_point mp))),
              (p + mp_length_dev, size_t_bytes (length (device mp))),
              (p + mp_length_type, size_t_bytes (length (partition_type_to_string (fs_type mp)))),
              (p + mp_offset_next, size_t_bytes (if rest \<noteq> [] then mount_record_size mp else 0)),
              (p + mp_name, mount_point mp),
              (p + mp_name + length (mount_point mp), [CHR 0x00]),
              (p + mp_name + (length (mount_point mp) + 1), device mp),
              (p + mp_name + (length (mount_point mp) + 1) + length (device mp), [CHR 0x00]),
              (p + mp_name + (length (mount_point mp) + 1 + length (device mp) + 1),
               partition_type_to_string (fs_type mp)),
              (p + mp_name + (length (mount_point mp) + 1 + length (device mp) + 1)
               + length (partition_type_to_string (fs_type mp)), [CHR 0x00])] of
        None \<Rightarrow> None
      | Some buffer' \<Rightarrow>
          mounts_loop rest (if rest \<noteq> [] then p + mount_record_size mp else p) buffer')"
proof (cases rest)
  case Nil
  show ?thesis unfolding Nil
    by (subst mounts_loop.simps) (simp only: Let_def if_False simp_thms)
next
  case (Cons g gs)
  show ?thesis unfolding Cons
    by (subst mounts_loop.simps)
      (simp only: Let_def list.distinct if_True simp_thms mount_record_size_def)
qed

lemma write_record:
  assumes fit: "p + mount_record_size mp \<le> length buffer"
  shows "stores buffer
             [(p + mp_length_mp, size_t_bytes (length (mount_point mp))),
              (p + mp_length_dev, size_t_bytes (length (device mp))),
              (p + mp_length_type, size_t_bytes (length (partition_type_to_string (fs_type mp)))),
              (p + mp_offset_next, size_t_bytes off),
              (p + mp_name, mount_point mp),
              (p + mp_name + length (mount_point mp), [CHR 0x00]),
              (p + mp_name + (length (mount_point mp) + 1), device mp),
              (p + mp_name + (length (mount_point mp) + 1) + length (device mp), [CHR 0x00]),
              (p + mp_name + (length (mount_point mp) + 1 + length (device mp) + 1),
               partition_type_to_string (fs_type mp)),
              (p + mp_name + (length (mount_point mp) + 1 + length (device mp) + 1)
               + length (partition_type_to_string (fs_type mp)), [CHR 0x00])]
         = Some (take p buffer @ mount_record_bytes mp off @ drop (p + mount_record_size mp) buffer)"
proof -
  let ?M = "mount_point mp" and ?D = "device mp" and ?Y = "partition_type_to_string (fs_type mp)"
  let ?m = "length ?M" and ?d = "length ?D" and ?y = "length ?Y"
  from fit have size: "p + (35 + ?d + ?m + ?y) \<le> length buffer"
    by (simp add: mount_record_size_def sizeof_size_t_def)
  from size obtain pre r0 where b0: "buffer = pre @ r0" and pre: "length pre = p"
    using cut_buffer [of p buffer] by auto
  with size have "8 \<le> length r0" by simp
  then obtain x0 r1 where b1: "r0 = x0 @ r1" and x0: "length x0 = 8"
    using cut_buffer [of 8 r0] by auto
  with size b0 pre have "8 \<le> length r1" by simp
  then obtain x1 r2 where b2: "r1 = x1 @ r2" and x1: "length x1 = 8"
    using cut_buffer [of 8 r1] by auto
  with size b0 b1 pre x0 have "8 \<le> length r2" by simp
  then obtain x2 r3 where b3: "r2 = x2 @ r3" and x2: "length x2 = 8"
    using cut_buffer [of 8 r2] by auto
  with size b0 b1 b2 pre x0 x1 have "8 \<le> length r3" by simp
  then obtain x3 r4 where b4: "r3 = x3 @ r4" and x3: "length x3 = 8"
    using cut_buffer [of 8 r3] by auto
  with size b0 b1 b2 b3 pre x0 x1 x2 have "?m \<le> length r4" by simp
  then obtain y0 r5 where b5: "r4 = y0 @ r5" and y0: "length y0 = ?m"
    using cut_buffer [of ?m r4] by auto
  with size b0 b1 b2 b3 b4 pre x0 x1 x2 x3 have "1 \<le> length r5" by simp
  then obtain n0 r6 where b6: "r5 = n0 @ r6" and n0: "length n0 = 1"
    using cut_buffer [of 1 r5] by auto
  with size b0 b1 b2 b3 b4 b5 pre x0 x1 x2 x3 y0 have "?d \<le> length r6" by simp
  then obtain y1 r7 where b7: "r6 = y1 @ r7" and y1: "length y1 = ?d"
    using cut_buffer [of ?d r6] by auto
  with size b0 b1 b2 b3 b4 b5 b6 pre x0 x1 x2 x3 y0 n0 have "1 \<le> length r7" by simp
  then obtain n1 r8 where b8: "r7 = n1 @ r8" and n1: "length n1 = 1"
    using cut_buffer [of 1 r7] by auto
  with size b0 b1 b2 b3 b4 b5 b6 b7 pre x0 x1 x2 x3 y0 n0 y1 have "?y \<le> length r8" by simp
  then obtain y2 r9 where b9: "r8 = y2 @ r9" and y2: "length y2 = ?y"
    using cut_buffer [of ?y r8] by auto
  with size b0 b1 b2 b3 b4 b5 b6 b7 b8 pre x0 x1 x2 x3 y0 n0 y1 n1 have "1 \<le> length r9" by simp
  then obtain n2 post where b10: "r9 = n2 @ post" and n2: "length n2 = 1"
    using cut_buffer [of 1 r9] by auto
  have buffer: "buffer = pre @ x0 @ x1 @ x2 @ x3 @ y0 @ n0 @ y1 @ n1 @ y2 @ n2 @ post"
    by (simp add: b0 b1 b2 b3 b4 b5 b6 b7 b8 b9 b10)
  let ?O = "size_t_bytes off" and ?LM = "size_t_bytes ?m" and ?LD = "size_t_bytes ?d"
    and ?LY = "size_t_bytes ?y" and ?Z = "[CHR 0x00]"
  note L = length_size_t_bytes mp_length_mp_def mp_length_dev_def mp_length_type_def
    mp_offset_next_def mp_name_def
  have s1: "store (pre @ x0 @ x1 @ x2 @ x3 @ y0 @ n0 @ y1 @ n1 @ y2 @ n2 @ post) (p + mp_length_mp) ?LM
      = Some (pre @ x0 @ ?LM @ x2 @ x3 @ y0 @ n0 @ y1 @ n1 @ y2 @ n2 @ post)"
    using store_within [of "pre @ x0" "p + 8" x1 ?LM "x2 @ x3 @ y0 @ n0 @ y1 @ n1 @ y2 @ n2 @ post"]
      pre x0 x1 by (simp add: L)
  have s2: "store (pre @ x0 @ ?LM @ x2 @ x3 @ y0 @ n0 @ y1 @ n1 @ y2 @ n2 @ post) (p + mp_length_dev) ?LD
      = Some (pre @ x0 @ ?LM @ ?LD @ x3 @ y0 @ n0 @ y1 @ n1 @ y2 @ n2 @ post)"
    using store_within [of "pre @ x0 @ ?LM" "p + 16" x2 ?LD "x3 @ y0 @ n0 @ y1 @ n1 @ y2 @ n2 @ post"]
      pre x0 x2 by (simp add: L)
  have s3: "store (pre @ x0 @ ?LM @ ?LD @ x3 @ y0 @ n0 @ y1 @ n1 @ y2 @ n2 @ post) (p + mp_length_type) ?LY
      = Some (pre @ x0 @ ?LM @ ?LD @ ?LY @ y0 @ n0 @ y1 @ n1 @ y2 @ n2 @ post)"
    using store_within [of "pre @ x0 @ ?LM @ ?LD" "p + 24" x3 ?LY "y0 @ n0 @ y1 @ n1 @ y2 @ n2 @ post"]
      pre x0 x3 by (simp add: L)
  have s4: "store (pre @ x0 @ ?LM @ ?LD @ ?LY @ y0 @ n0 @ y1 @ n1 @ y2 @ n2 @ post) (p + mp_offset_next) ?O
      = Some (pre @ ?O @ ?LM @ ?LD @ ?LY @ y0 @ n0 @ y1 @ n1 @ y2 @ n2 @ post)"
    using store_within [of pre p x0 ?O "?LM @ ?LD @ ?LY @ y0 @ n0 @ y1 @ n1 @ y2 @ n2 @ post"]
      pre x0 by (simp add: L)
  have s5: "store (pre @ ?O @ ?LM @ ?LD @ ?LY @ y0 @ n0 @ y1 @ n1 @ y2 @ n2 @ post) (p + mp_name) ?M
      = Some (pre @ ?O @ ?LM @ ?LD @ ?LY @ ?M @ n0 @ y1 @ n1 @ y2 @ n2 @ post)"
    using store_within [of "pre @ ?O @ ?LM @ ?LD @ ?LY" "p + 32" y0 ?M "n0 @ y1 @ n1 @ y2 @ n2 @ post"]
      pre y0 by (simp add: L)
  have s6: "store (pre @ ?O @ ?LM @ ?LD @ ?LY @ ?M @ n0 @ y1 @ n1 @ y2 @ n2 @ post)
        (p + mp_name + ?m) ?Z
      = Some (pre @ ?O @ ?LM @ ?LD @ ?LY @ ?M @ ?Z @ y1 @ n1 @ y2 @ n2 @ post)"
    using store_within [of "pre @ ?O @ ?LM @ ?LD @ ?LY @ ?M" "p + 32 + ?m" n0 ?Z "y1 @ n1 @ y2 @ n2 @ post"]
      pre n0 by (simp add: L)
  have s7: "store (pre @ ?O @ ?LM @ ?LD @ ?LY @ ?M @ ?Z @ y1 @ n1 @ y2 @ n2 @ post)
        (p + mp_name + (?m + 1)) ?D
      = Some (pre @ ?O @ ?LM @ ?LD @ ?LY @ ?M @ ?Z @ ?D @ n1 @ y2 @ n2 @ post)"
    using store_within [of "pre @ ?O @ ?LM @ ?LD @ ?LY @ ?M @ ?Z" "p + 32 + (?m + 1)" y1 ?D "n1 @ y2 @ n2 @ post"]
      pre y1 by (simp add: L)
  have s8: "store (pre @ ?O @ ?LM @ ?LD @ ?LY @ ?M @ ?Z @ ?D @ n1 @ y2 @ n2 @ post)
        (p + mp_name + (?m + 1) + ?d) ?Z
      = Some (pre @ ?O @ ?LM @ ?LD @ ?LY @ ?M @ ?Z @ ?D @ ?Z @ y2 @ n2 @ post)"
    using store_within [of "pre @ ?O @ ?LM @ ?LD @ ?LY @ ?M @ ?Z @ ?D" "p + 32 + (?m + 1) + ?d" n1 ?Z "y2 @ n2 @ post"]
      pre n1 by (simp add: L)
  have s9: "store (pre @ ?O @ ?LM @ ?LD @ ?LY @ ?M @ ?Z @ ?D @ ?Z @ y2 @ n2 @ post)
        (p + mp_name + (?m + 1 + ?d + 1)) ?Y
      = Some (pre @ ?O @ ?LM @ ?LD @ ?LY @ ?M @ ?Z @ ?D @ ?Z @ ?Y @ n2 @ post)"
    using store_within [of "pre @ ?O @ ?LM @ ?LD @ ?LY @ ?M @ ?Z @ ?D @ ?Z" "p + 32 + (?m + 1 + ?d + 1)" y2 ?Y "n2 @ post"]
      pre y2 by (simp add: L)
  have s10: "store (pre @ ?O @ ?LM @ ?LD @ ?LY @ ?M @ ?Z @ ?D @ ?Z @ ?Y @ n2 @ post)
        (p + mp_name + (?m + 1 + ?d + 1) + ?y) ?Z
      = Some (pre @ ?O @ ?LM @ ?LD @ ?LY @ ?M @ ?Z @ ?D @ ?Z @ ?Y @ ?Z @ post)"
    using store_within [of "pre @ ?O @ ?LM @ ?LD @ ?LY @ ?M @ ?Z @ ?D @ ?Z @ ?Y" "p + 32 + (?m + 1 + ?d + 1) + ?y" n2 ?Z post]
      pre n2 by (simp add: L)
  have t: "take p buffer = pre" using pre by (simp add: buffer)
  have d: "drop (p + mount_record_size mp) buffer = post"
    using pre x0 x1 x2 x3 y0 n0 y1 n1 y2 n2
    by (simp add: buffer mount_record_size_def sizeof_size_t_def)
  show ?thesis
    unfolding t d unfolding buffer
    by (simp only: stores.simps s1 s2 s3 s4 s5 s6 s7 s8 s9 s10 option.case
        mount_record_bytes_def append_assoc)
qed

lemma mounts_loop_listing:
  "p + (\<Sum>mp\<leftarrow>mpl. mount_record_size mp) \<le> length buffer \<Longrightarrow>
   mounts_loop mpl p buffer =
     Some (take p buffer @ mount_listing mpl
           @ drop (p + (\<Sum>mp\<leftarrow>mpl. mount_record_size mp)) buffer)"
proof (induction mpl arbitrary: p buffer)
  case Nil
  show ?case by simp
next
  case (Cons mp rest)
  let ?s = "mount_record_size mp"
  let ?W = "\<Sum>mp\<leftarrow>rest. mount_record_size mp"
  from Cons.prems have fit: "p + ?s \<le> length buffer" by simp
  show ?case
  proof (cases rest)
    case Nil
    have "mounts_loop (mp # rest) p buffer =
        Some (take p buffer @ mount_record_bytes mp 0 @ drop (p + ?s) buffer)"
      unfolding mounts_loop_Cons
      by (simp only: Nil write_record [OF fit] option.case mounts_loop.simps if_False simp_thms)
    then show ?thesis using Nil by simp
  next
    case (Cons g gs)
    then have ne: "rest \<noteq> []" by simp
    let ?b = "take p buffer @ mount_record_bytes mp ?s @ drop (p + ?s) buffer"
    have lb: "length ?b = length buffer"
      using fit by (simp add: length_mount_record_bytes)
    have tk: "take (p + ?s) ?b = take p buffer @ mount_record_bytes mp ?s"
      using fit by (simp add: length_mount_record_bytes)
    have dr: "drop (p + ?s + ?W) ?b = drop (p + ?s + ?W) buffer"
      using fit by (simp add: length_mount_record_bytes ac_simps)
    from Cons.prems lb have "p + ?s + ?W \<le> length ?b" by simp
    from Cons.IH [OF this]
    have ih: "mounts_loop rest (p + ?s) ?b =
        Some (take p buffer @ mount_record_bytes mp ?s @ mount_listing rest
              @ drop (p + ?s + ?W) buffer)"
      unfolding tk dr by simp
    have step: "mounts_loop (mp # rest) p buffer = mounts_loop rest (p + ?s) ?b"
      unfolding mounts_loop_Cons
      by (simp only: ne write_record [OF fit] option.case if_True simp_thms)
    have lst: "mount_listing (mp # rest) = mount_record_bytes mp ?s @ mount_listing rest"
      using Cons by simp
    show ?thesis
      unfolding step ih lst by (simp add: add.assoc)
  qed
qed

lemma bytes_value_low_bytes: "bytes_value (low_bytes k n) = n mod 256 ^ k"
proof (induction k arbitrary: n)
  case 0
  show ?case by simp
next
  case (Suc k)
  have "n mod (256 * 256 ^ k) = 256 * (n div 256 mod 256 ^ k) + n mod 256"
    by (rule mod_mult2_eq)
  with Suc show ?case by simp
qed

lemma read_size_t_bytes: "read_size_t (size_t_bytes n @ rest) = n mod 2 ^ 64"
proof -
  have "take sizeof_size_t (size_t_bytes n @ rest) = size_t_bytes n"
    by (simp add: length_size_t_bytes sizeof_size_t_def)
  then have "read_size_t (size_t_bytes n @ rest) = n mod 256 ^ 8"
    by (simp add: read_size_t_def size_t_bytes_def bytes_value_low_bytes sizeof_size_t_def)
  then show ?thesis by simp
qed

lemma read_c_string_terminated:
  "CHR 0x00 \<notin> set s \<Longrightarrow> read_c_string (s @ CHR 0x00 # rest) = s"
  by (induction s) (auto simp: read_c_string_def)

lemma type_string_no_NUL: "CHR 0x00 \<notin> set (partition_type_to_string type)"
  by (cases type) (simp_all add: partition_type_to_string_def)

lemma read_mount_record_bytes:
  assumes "CHR 0x00 \<notin> set (mount_point mp)" and "CHR 0x00 \<notin> set (device mp)"
  shows "read_mount_record (mount_record_bytes mp off @ tail)
         = (mount_point mp, device mp, partition_type_to_string (fs_type mp))"
proof -
  let ?Y = "partition_type_to_string (fs_type mp)"
  have d: "drop mp_name (mount_record_bytes mp off @ tail)
      = mount_point mp @ CHR 0x00 # device mp @ CHR 0x00 # ?Y @ CHR 0x00 # tail"
    by (simp add: mount_record_bytes_def mp_name_def length_size_t_bytes)
  show ?thesis
    unfolding read_mount_record_def d
    by (simp add: Let_def read_c_string_terminated assms type_string_no_NUL)
qed

lemma read_offset_next:
  "read_size_t (drop mp_offset_next (mount_record_bytes mp off @ tail)) = off mod 2 ^ 64"
  by (simp add: mount_record_bytes_def mp_offset_next_def read_size_t_bytes)

lemma read_mount_records_last:
  assumes "CHR 0x00 \<notin> set (mount_point mp)" and "CHR 0x00 \<notin> set (device mp)"
  shows "read_mount_records (mount_record_bytes mp 0 @ tail)
         = [(mount_point mp, device mp, partition_type_to_string (fs_type mp))]"
  by (subst read_mount_records.simps)
    (simp only: read_offset_next Let_def mod_0 if_True read_mount_record_bytes [OF assms] simp_thms)

lemma read_mount_records_next:
  assumes "CHR 0x00 \<notin> set (mount_point mp)" and "CHR 0x00 \<notin> set (device mp)"
    and "mount_record_size mp < 2 ^ 64"
  shows "read_mount_records (mount_record_bytes mp (mount_record_size mp) @ tail)
         = (mount_point mp, device mp, partition_type_to_string (fs_type mp))
           # read_mount_records tail"
proof -
  have nz: "mount_record_size mp \<noteq> 0" by (simp add: mount_record_size_def sizeof_size_t_def)
  have off: "read_size_t (drop mp_offset_next (mount_record_bytes mp (mount_record_size mp) @ tail))
      = mount_record_size mp"
    by (simp only: read_offset_next mod_less [OF assms(3)])
  have dr: "drop (mount_record_size mp) (mount_record_bytes mp (mount_record_size mp) @ tail) = tail"
    by (simp add: length_mount_record_bytes)
  show ?thesis
    by (subst read_mount_records.simps)
      (simp only: off dr nz Let_def if_False read_mount_record_bytes [OF assms(1,2)])
qed

lemma read_mount_records_listing:
  assumes "mpl \<noteq> []"
    and "\<forall>mp \<in> set mpl. CHR 0x00 \<notin> set (mount_point mp) \<and> CHR 0x00 \<notin> set (device mp)"
    and "\<forall>mp \<in> set mpl. mount_record_size mp < 2 ^ 64"
  shows "read_mount_records (mount_listing mpl @ tail)
         = map (\<lambda>mp. (mount_point mp, device mp, partition_type_to_string (fs_type mp))) mpl"
  using assms
proof (induction mpl rule: mount_listing.induct)
  case 1
  then show ?case by simp
next
  case (2 mp)
  then show ?case by (simp add: read_mount_records_last)
next
  case (3 mp g gs)
  then have "read_mount_records (mount_listing (g # gs) @ tail)
      = map (\<lambda>mp. (mount_point mp, device mp, partition_type_to_string (fs_type mp))) (g # gs)"
    by simp
  moreover from "3.prems" have "CHR 0x00 \<notin> set (mount_point mp)" "CHR 0x00 \<notin> set (device mp)"
    "mount_record_size mp < 2 ^ 64" by simp_all
  ultimately show ?case by (simp add: read_mount_records_next)
qed

text \<open>
  Claim C4. The buffer has the \<open>buffer_size\<close> bytes that the caller says, and they are at
  least the sum over the mounts of \<open>4 * sizeof(size_t) + 3\<close> plus the lengths of the
  device, of the mount point and of the type string. The mount points and devices are C
  strings (no NUL inside), and the size of a record fits a \<^verbatim>\<open>size_t\<close>. Then \<^verbatim>\<open>mounts\<close>
  returns that sum, and reading the records back from the buffer (from record to record by
  \<^verbatim>\<open>offset_next\<close> until it is \<open>0\<close>, three NUL-terminated strings in each) gives the mount
  point, the device and the type string of every mount, in the order of the registry.
\<close>

theorem mounts_round_trip:
  assumes size: "(\<Sum>mp\<leftarrow>mount_point_list st.
                    4 * sizeof_size_t + 3 + length (device mp) + length (mount_point mp)
                    + length (partition_type_to_string (fs_type mp))) \<le> buffer_size"
    and buffer: "buffer_size \<le> length buffer"
    and c_strings: "\<forall>mp \<in> set (mount_point_list st).
                      CHR 0x00 \<notin> set (mount_point mp) \<and> CHR 0x00 \<notin> set (device mp)"
    and word: "\<forall>mp \<in> set (mount_point_list st).
                 4 * sizeof_size_t + 3 + length (device mp) + length (mount_point mp)
                 + length (partition_type_to_string (fs_type mp)) < 2 ^ 64"
  shows "\<exists>buffer'.
           vfs_mounts K st buffer buffer_size
             = Some (int (\<Sum>mp\<leftarrow>mount_point_list st.
                            4 * sizeof_size_t + 3 + length (device mp) + length (mount_point mp)
                            + length (partition_type_to_string (fs_type mp))), buffer')
         \<and> read_mounts (\<Sum>mp\<leftarrow>mount_point_list st.
                            4 * sizeof_size_t + 3 + length (device mp) + length (mount_point mp)
                            + length (partition_type_to_string (fs_type mp))) buffer'
           = map (\<lambda>mp. (mount_point mp, device mp, partition_type_to_string (fs_type mp)))
               (mount_point_list st)"
proof -
  let ?mpl = "mount_point_list st"
  let ?T = "\<Sum>mp\<leftarrow>?mpl. mount_record_size mp"
  let ?b = "mount_listing ?mpl @ drop ?T buffer"
  have T: "(\<Sum>mp\<leftarrow>?mpl. 4 * sizeof_size_t + 3 + length (device mp) + length (mount_point mp)
                    + length (partition_type_to_string (fs_type mp))) = ?T"
    by (simp add: mount_record_size_def)
  from size buffer have fit: "0 + ?T \<le> length buffer" unfolding T by simp
  from size have le: "\<not> buffer_size < ?T" unfolding T by simp
  have res: "vfs_mounts K st buffer buffer_size = Some (int ?T, ?b)"
    using mounts_loop_listing [OF fit] le
    by (simp add: vfs_mounts_def mounts_total_sum Let_def)
  have tk: "take ?T ?b = mount_listing ?mpl" by (simp add: length_mount_listing)
  have rd: "read_mounts ?T ?b
      = map (\<lambda>mp. (mount_point mp, device mp, partition_type_to_string (fs_type mp))) ?mpl"
  proof (cases "?mpl = []")
    case True
    then show ?thesis by (simp add: read_mounts_def)
  next
    case False
    then obtain m ms where m: "?mpl = m # ms" by (cases ?mpl) auto
    have nz: "?T \<noteq> 0" unfolding m by (simp add: mount_record_size_def sizeof_size_t_def)
    from word have ws: "\<forall>mp \<in> set ?mpl. mount_record_size mp < 2 ^ 64"
      by (simp add: mount_record_size_def)
    from nz have "read_mounts ?T ?b = read_mount_records (take ?T ?b)"
      by (simp only: read_mounts_def if_False)
    also have "\<dots> = read_mount_records (mount_listing ?mpl @ [])"
      by (simp only: tk append_Nil2)
    also have "\<dots> = map (\<lambda>mp. (mount_point mp, device mp, partition_type_to_string (fs_type mp))) ?mpl"
      by (rule read_mount_records_listing [OF False c_strings ws])
    finally show ?thesis .
  qed
  from res rd show ?thesis unfolding T by blast
qed

text \<open>
  The theorem for the registry after \<^verbatim>\<open>vfs::init\<close> and a buffer of 200 bytes: 199 is
  returned and the four mounts are read back.
\<close>

theorem mounts_round_trip_witness:
  "\<exists>buffer'.
     vfs_mounts example_constants booted (replicate 200 (CHR ''x'')) 200 = Some (199, buffer')
     \<and> read_mounts 199 buffer'
       = [(''/'', ''/dev/hda1'', ''FAT32''), (''/sys/'', ''none'', ''sysfs''),
          (''/dev/'', ''none'', ''devfs''), (''/proc/'', ''none'', ''procfs'')]"
proof -
  have sizes: "map (\<lambda>mp. 4 * sizeof_size_t + 3 + length (device mp) + length (mount_point mp)
                        + length (partition_type_to_string (fs_type mp)))
                 (mount_point_list booted) = [50, 49, 49, 51]"
    by code_simp
  then have T: "(\<Sum>mp\<leftarrow>mount_point_list booted.
              4 * sizeof_size_t + 3 + length (device mp) + length (mount_point mp)
              + length (partition_type_to_string (fs_type mp))) = 199"
    by simp
  have h1: "(\<Sum>mp\<leftarrow>mount_point_list booted.
              4 * sizeof_size_t + 3 + length (device mp) + length (mount_point mp)
              + length (partition_type_to_string (fs_type mp))) \<le> 200"
    unfolding T by simp
  have h2: "200 \<le> length (replicate 200 (CHR ''x''))" by simp
  have h3: "\<forall>mp \<in> set (mount_point_list booted).
              CHR 0x00 \<notin> set (mount_point mp) \<and> CHR 0x00 \<notin> set (device mp)"
    by code_simp
  have "list_all (\<lambda>n. n < 2 ^ 64)
          (map (\<lambda>mp. 4 * sizeof_size_t + 3 + length (device mp) + length (mount_point mp)
                     + length (partition_type_to_string (fs_type mp)))
             (mount_point_list booted))"
    unfolding sizes by simp
  then have h4: "\<forall>mp \<in> set (mount_point_list booted).
              4 * sizeof_size_t + 3 + length (device mp) + length (mount_point mp)
              + length (partition_type_to_string (fs_type mp)) < 2 ^ 64"
    by (simp add: list_all_iff)
  have m: "map (\<lambda>mp. (mount_point mp, device mp, partition_type_to_string (fs_type mp)))
             (mount_point_list booted)
       = [(''/'', ''/dev/hda1'', ''FAT32''), (''/sys/'', ''none'', ''sysfs''),
          (''/dev/'', ''none'', ''devfs''), (''/proc/'', ''none'', ''procfs'')]"
    by code_simp
  from mounts_round_trip [OF h1 h2 h3 h4, of example_constants]
  show ?thesis unfolding T m by simp
qed

end
